theory Spec2Isabelle
  imports Complex_Main "HOL-Library.AList" "HOL-Library.Log_Nat"
begin

section \<open>The recommendation service of the e-commerce API\<close>

text \<open>
  This theory embeds \<^verbatim>\<open>internal/service/recommendationService.go\<close>: the three
  operations \<^verbatim>\<open>GetRecommendations\<close>, \<^verbatim>\<open>GetSimilarUsers\<close> and
  \<^verbatim>\<open>getPopularProducts\<close>, with the domain structs they read and build.

  Conventions of the embedding:
  \<^item> Go's \<^verbatim>\<open>int\<close> is \<open>int\<close>: identifiers are only compared, and counters are bounded
    by the number of events read, so no 64-bit wrap-around can occur.
  \<^item> A \<^verbatim>\<open>float64\<close> value is the rational number it denotes, and every operation on
    such values rounds its exact result to the nearest binary64 number, ties to even
    (\<open>to_float64\<close>): each literal (\<open>0.35\<close> is \<open>likeWeight\<close>, the rounded \<open>35/100\<close>), each conversion
    \<^verbatim>\<open>float64(n)\<close>, each product, sum and quotient. Every operation is rounded on its own, as
    the compiler does on amd64 (the Go specification also lets a compiler fuse
    \<open>x * y + z\<close>). The exponent range is not modelled: a value the code forms from
    64-bit counts is \<open>0\<close> or lies between \<open>2\<^sup>-\<^sup>7\<^sup>0\<close> and \<open>2\<^sup>7\<^sup>0\<close>, far inside the normal range,
    and the code divides only by a count it has tested to be positive.
  \<^item> A \<^verbatim>\<open>map[int]bool\<close> that the code only tests and measures is an \<open>int set\<close>
    (indexing is membership, \<^verbatim>\<open>len\<close> is \<open>card\<close>). A map whose entries the code ranges
    over is an association list with distinct keys.
  \<^item> The order in which \<^verbatim>\<open>range\<close> visits a map is not fixed by Go. Each such loop
    takes a ranking of the keys from the world and visits the keys by ascending rank:
    every ranking gives a permutation of the entries, and every permutation arises from
    a ranking (\<open>range_map_any_order\<close>).
  \<^item> \<^verbatim>\<open>sort.Slice\<close> is not stable. It is modelled by the stable insertion sort
    \<open>sort_key\<close> on the negated score; together with the arbitrary visiting order this
    yields every descending arrangement of the entries (\<open>every_descending_order\<close>).
  \<^item> The repositories are read several times during one request; the model reads one
    snapshot of the store, so every read of the same collection gives the same answer.
  \<^item> A returned \<^verbatim>\<open>error\<close> and a run-time panic are constructors of the result type.
\<close>

subsection \<open>Errors and results\<close>

datatype error =
    ErrNotFound
  | ErrOther string
  | Errorf string error

datatype 'a outcome = Ok 'a | Err error | Panic

subsection \<open>float64\<close>

type_synonym float64 = rat

text \<open>Rounding to an integer, ties to the even neighbour.\<close>

definition round_even :: "rat \<Rightarrow> int" where
  "round_even m =
     (let n = \<lfloor>m\<rfloor>; r = m - of_int n
      in if r < 1/2 then n else if 1/2 < r then n + 1 else if even n then n else n + 1)"

text \<open>The binary exponent of a positive number: \<open>2 powi expo x \<le> x < 2 powi (expo x + 1)\<close>.\<close>

definition expo :: "rat \<Rightarrow> int" where
  "expo x = (if 1 \<le> x then bitlen \<lfloor>x\<rfloor> - 1 else - bitlen (\<lceil>1 / x\<rceil> - 1))"

text \<open>A binary64 number has a significand of 53 bits: a positive \<open>x\<close> is rounded to a
  multiple of \<open>2 powi (expo x - 52)\<close>.\<close>

definition fl_pos :: "rat \<Rightarrow> float64" where
  "fl_pos x = (let q = 2 powi (expo x - 52) in of_int (round_even (x / q)) * q)"

definition to_float64 :: "rat \<Rightarrow> float64" where
  "to_float64 x = (if x = 0 then 0 else if 0 < x then fl_pos x else - fl_pos (- x))"

definition float64_of_int :: "int \<Rightarrow> float64" where
  "float64_of_int n = to_float64 (of_int n)"

definition fadd :: "float64 \<Rightarrow> float64 \<Rightarrow> float64" where
  "fadd x y = to_float64 (x + y)"

definition fmul :: "float64 \<Rightarrow> float64 \<Rightarrow> float64" where
  "fmul x y = to_float64 (x * y)"

definition fdiv :: "float64 \<Rightarrow> float64 \<Rightarrow> float64" where
  "fdiv x y = to_float64 (x / y)"

text \<open>The literals of the code: \<^verbatim>\<open>0.5\<close>, \<^verbatim>\<open>0.35\<close>, \<^verbatim>\<open>0.15\<close> (the weights of the three
  interaction types), \<^verbatim>\<open>0.1\<close> (the threshold), \<^verbatim>\<open>3.0\<close> and \<^verbatim>\<open>1.5\<close> (the boosts of a
  neighbour's purchase and like), each converted to \<^verbatim>\<open>float64\<close>.\<close>

definition purchaseWeight :: float64 where "purchaseWeight = to_float64 (5/10)"
definition likeWeight :: float64 where "likeWeight = to_float64 (35/100)"
definition viewWeight :: float64 where "viewWeight = to_float64 (15/100)"
definition similarityThreshold :: float64 where "similarityThreshold = to_float64 (1/10)"
definition purchaseBoost :: float64 where "purchaseBoost = to_float64 3"
definition likeBoost :: float64 where "likeBoost = to_float64 (15/10)"

subsection \<open>Domain structs\<close>

type_synonym time = nat

record UserProductView =
  view_UserID :: int
  view_ProductID :: int
  ViewedAt :: time

record UserProductLike =
  like_UserID :: int
  like_ProductID :: int
  LikedAt :: time

record UserProductPurchase =
  purchase_UserID :: int
  purchase_ProductID :: int
  Quantity :: int
  PriceAtPurchase :: float64
  PurchasedAt :: time

record Product =
  product_ID :: int
  product_Name :: string
  Description :: string
  product_CategoryID :: "int option"
  product_Price :: float64
  Stock :: int
  ImageURL :: string
  IsActive :: bool
  CreatedAt :: time
  UpdatedAt :: time

record ProductRecommendation =
  ProductID :: int
  ProductName :: string
  CategoryID :: int
  Price :: float64
  Score :: float64
  Reason :: string

record RecommendationResponse =
  UserID :: int
  Recommendations :: "ProductRecommendation list"
  Algorithm :: string
  GeneratedAt :: string

record UserSimilarity =
  sim_UserID :: int
  SimilarityScore :: float64
  CommonLikes :: int
  CommonViews :: int

subsection \<open>The collaborators\<close>

text \<open>
  The interaction repository, the product repository, the clock (already rendered in
  RFC 3339) and the visiting orders of the three order-sensitive \<^verbatim>\<open>range\<close> loops.
\<close>

record world =
  GetAllUserLikes :: "error + UserProductLike list"
  GetAllUserViews :: "error + UserProductView list"
  GetAllUserPurchases :: "error + UserProductPurchase list"
  GetByID :: "int \<Rightarrow> error + Product"
  now_RFC3339 :: string
  range_allUserIDs :: "int \<Rightarrow> int"
  range_productScores :: "int \<Rightarrow> int"
  range_likeCounts :: "int \<Rightarrow> int"

subsection \<open>Go maps and slices\<close>

definition range_map :: "(int \<Rightarrow> int) \<Rightarrow> (int \<times> 'v) list \<Rightarrow> (int \<times> 'v) list" where
  "range_map rank m = sort_key (\<lambda>kv. rank (fst kv)) m"

definition lookup_set :: "(int \<times> int set) list \<Rightarrow> int \<Rightarrow> int set" where
  "lookup_set m k = (case map_of m k of None \<Rightarrow> {} | Some s \<Rightarrow> s)"

definition lookup_num :: "(int \<times> 'a::zero) list \<Rightarrow> int \<Rightarrow> 'a" where
  "lookup_num m k = (case map_of m k of None \<Rightarrow> 0 | Some v \<Rightarrow> v)"

text \<open>\<^verbatim>\<open>if len(xs) > limit { xs = xs[:limit] }\<close>: the slice expression panics on a
  negative bound.\<close>

definition limit_results :: "int \<Rightarrow> 'a list \<Rightarrow> 'a list outcome" where
  "limit_results limit xs =
     (if int (length xs) > limit
      then (if limit < 0 then Panic else Ok (take (nat limit) xs))
      else Ok xs)"

text \<open>The verb \<^verbatim>\<open>%d\<close> of \<^verbatim>\<open>fmt.Sprintf\<close>.\<close>

fun decimal :: "nat \<Rightarrow> string" where
  "decimal n =
     (if n < 10 then [''0123456789'' ! n]
      else decimal (n div 10) @ [''0123456789'' ! (n mod 10)])"

definition fmt_d :: "int \<Rightarrow> string" where
  "fmt_d i = (if i < 0 then CHR ''-'' # decimal (nat (- i)) else decimal (nat i))"

subsection \<open>Interaction sets\<close>

text \<open>The loops that fill \<^verbatim>\<open>userLikedProducts\<close>, \<^verbatim>\<open>userViewedProducts\<close> and
  \<^verbatim>\<open>userPurchasedProducts\<close> in \<^verbatim>\<open>GetRecommendations\<close>.\<close>

definition user_products :: "('e \<Rightarrow> int) \<Rightarrow> ('e \<Rightarrow> int) \<Rightarrow> int \<Rightarrow> 'e list \<Rightarrow> int set" where
  "user_products uid_of pid_of userID events =
     fold (\<lambda>ev mine. if uid_of ev = userID then insert (pid_of ev) mine else mine) events {}"

text \<open>The loops of \<^verbatim>\<open>GetSimilarUsers\<close>, which also group the other users' events by
  user id, creating the inner map on first use.\<close>

definition add_product :: "int \<Rightarrow> int \<Rightarrow> (int \<times> int set) list \<Rightarrow> (int \<times> int set) list" where
  "add_product uid pid others = AList.update uid (insert pid (lookup_set others uid)) others"

definition split_by_user ::
  "('e \<Rightarrow> int) \<Rightarrow> ('e \<Rightarrow> int) \<Rightarrow> int \<Rightarrow> 'e list \<Rightarrow> int set \<times> (int \<times> int set) list" where
  "split_by_user uid_of pid_of userID events =
     fold (\<lambda>ev (mine, others).
             if uid_of ev = userID then (insert (pid_of ev) mine, others)
             else (mine, add_product (uid_of ev) (pid_of ev) others))
          events ({}, [])"

subsection \<open>GetSimilarUsers\<close>

definition count_common :: "int set \<Rightarrow> int set \<Rightarrow> int" where
  "count_common mine other = int (card (Set.filter (\<lambda>productID. productID \<in> other) mine))"

definition ratio :: "int \<Rightarrow> int \<Rightarrow> float64" where
  "ratio common union_size =
     (if union_size > 0 then fdiv (float64_of_int common) (float64_of_int union_size) else 0)"

text \<open>The body of the loop over \<^verbatim>\<open>allUserIDs\<close>; \<open>None\<close> is \<^verbatim>\<open>continue\<close>.\<close>

definition similarity_entry ::
  "int set \<Rightarrow> int set \<Rightarrow> int set \<Rightarrow> int set \<Rightarrow> int set \<Rightarrow> int set \<Rightarrow> int \<Rightarrow> UserSimilarity option" where
  "similarity_entry userLikedProducts userViewedProducts userPurchasedProducts
       otherLikes otherViews otherPurchases otherUserID =
     (let commonPurchases = count_common userPurchasedProducts otherPurchases;
          commonLikes = count_common userLikedProducts otherLikes;
          commonViews = count_common userViewedProducts otherViews
      in if commonLikes = 0 \<and> commonViews = 0 \<and> commonPurchases = 0 then None
         else
           let unionPurchases = int (card userPurchasedProducts) + int (card otherPurchases) - commonPurchases;
               unionLikes = int (card userLikedProducts) + int (card otherLikes) - commonLikes;
               unionViews = int (card userViewedProducts) + int (card otherViews) - commonViews;
               purchaseSimilarity = ratio commonPurchases unionPurchases;
               likeSimilarity = ratio commonLikes unionLikes;
               viewSimilarity = ratio commonViews unionViews;
               similarity = fadd (fadd (fmul purchaseSimilarity purchaseWeight)
                                       (fmul likeSimilarity likeWeight))
                                 (fmul viewSimilarity viewWeight)
           in if similarity < similarityThreshold then None
              else Some \<lparr>sim_UserID = otherUserID, SimilarityScore = similarity,
                         CommonLikes = commonLikes, CommonViews = commonViews\<rparr>)"

definition similar_users ::
  "(int \<Rightarrow> int) \<Rightarrow> int \<Rightarrow> int \<Rightarrow> UserProductLike list \<Rightarrow> UserProductView list \<Rightarrow>
     UserProductPurchase list \<Rightarrow> UserSimilarity list outcome" where
  "similar_users rank userID limit allLikes allViews allPurchases =
     (let (userLikedProducts, otherUsersLikes) = split_by_user like_UserID like_ProductID userID allLikes;
          (userViewedProducts, otherUsersViews) = split_by_user view_UserID view_ProductID userID allViews;
          (userPurchasedProducts, otherUsersPurchases) =
             split_by_user purchase_UserID purchase_ProductID userID allPurchases;
          allUserIDs = remdups (map fst otherUsersLikes @ map fst otherUsersViews @ map fst otherUsersPurchases);
          similarities = List.map_filter
             (\<lambda>otherUserID. similarity_entry userLikedProducts userViewedProducts userPurchasedProducts
                (lookup_set otherUsersLikes otherUserID) (lookup_set otherUsersViews otherUserID)
                (lookup_set otherUsersPurchases otherUserID) otherUserID)
             (sort_key rank allUserIDs)
      in limit_results limit (sort_key (\<lambda>s. - SimilarityScore s) similarities))"

definition GetSimilarUsers :: "world \<Rightarrow> int \<Rightarrow> int \<Rightarrow> UserSimilarity list outcome" where
  "GetSimilarUsers w userID limit =
     (case GetAllUserLikes w of
        Inl err \<Rightarrow> Err (Errorf ''get all likes'' err)
      | Inr allLikes \<Rightarrow>
     (case GetAllUserViews w of
        Inl err \<Rightarrow> Err (Errorf ''get all views'' err)
      | Inr allViews \<Rightarrow>
     (case GetAllUserPurchases w of
        Inl err \<Rightarrow> Err (Errorf ''get all purchases'' err)
      | Inr allPurchases \<Rightarrow>
          similar_users (range_allUserIDs w) userID limit allLikes allViews allPurchases)))"

subsection \<open>getPopularProducts\<close>

definition increment :: "int \<Rightarrow> (int \<times> int) list \<Rightarrow> (int \<times> int) list" where
  "increment k m = AList.update k (lookup_num m k + 1) m"

definition categoryID_of :: "Product \<Rightarrow> int" where
  "categoryID_of product = (case product_CategoryID product of None \<Rightarrow> 0 | Some c \<Rightarrow> c)"

definition popular_item :: "world \<Rightarrow> int \<Rightarrow> int \<times> int \<Rightarrow> ProductRecommendation option" where
  "popular_item w maxCount pc =
     (case GetByID w (fst pc) of
        Inl err \<Rightarrow> None
      | Inr product \<Rightarrow>
          Some \<lparr>ProductID = fst pc, ProductName = product_Name product,
                CategoryID = categoryID_of product, Price = product_Price product,
                Score = fdiv (float64_of_int (snd pc)) (float64_of_int maxCount),
                Reason = ''Popular choice - '' @ fmt_d (snd pc) @ '' users liked this''\<rparr>)"

definition getPopularProducts :: "world \<Rightarrow> int \<Rightarrow> RecommendationResponse outcome" where
  "getPopularProducts w limit =
     (case GetAllUserLikes w of
        Inl err \<Rightarrow> Err (Errorf ''get all likes'' err)
      | Inr allLikes \<Rightarrow>
          (let likeCounts = fold (\<lambda>like. increment (like_ProductID like)) allLikes [];
               productCounts = range_map (range_likeCounts w) likeCounts
           in case limit_results limit (sort_key (\<lambda>pc. - snd pc) productCounts) of
                Panic \<Rightarrow> Panic
              | Err err \<Rightarrow> Err err
              | Ok productCounts \<Rightarrow>
                  (let maxCount = (if length productCounts > 0 then snd (hd productCounts) else 1)
                   in Ok \<lparr>UserID = 0,
                          Recommendations = List.map_filter (popular_item w maxCount) productCounts,
                          Algorithm = ''popularity_based'',
                          GeneratedAt = now_RFC3339 w\<rparr>)))"

subsection \<open>GetRecommendations\<close>

record aggregation =
  productScores :: "(int \<times> float64) list"
  productDetails :: "int \<rightharpoonup> Product"

text \<open>The shared tail of both scoring loops: fetch the product unless cached, skip the
  event when the catalog has no such product, otherwise add to the running score.\<close>

definition credit :: "world \<Rightarrow> int \<Rightarrow> float64 \<Rightarrow> aggregation \<Rightarrow> aggregation" where
  "credit w productID amount st =
     (case productDetails st productID of
        Some cached \<Rightarrow>
          st\<lparr>productScores := AList.update productID (fadd (lookup_num (productScores st) productID) amount)
                                  (productScores st)\<rparr>
      | None \<Rightarrow>
          (case GetByID w productID of
             Inl err \<Rightarrow> st
           | Inr product \<Rightarrow>
               \<lparr>productScores = AList.update productID (fadd (lookup_num (productScores st) productID) amount)
                                   (productScores st),
                productDetails = (productDetails st)(productID \<mapsto> product)\<rparr>))"

definition purchase_pass ::
  "world \<Rightarrow> int set \<Rightarrow> UserSimilarity list \<Rightarrow> UserProductPurchase list \<Rightarrow> aggregation \<Rightarrow> aggregation" where
  "purchase_pass w userPurchasedProducts similarUsers allPurchases =
     fold (\<lambda>simUser. fold (\<lambda>purchase st.
             if purchase_UserID purchase \<noteq> sim_UserID simUser then st
             else if purchase_ProductID purchase \<in> userPurchasedProducts then st
             else credit w (purchase_ProductID purchase) (fmul (SimilarityScore simUser) purchaseBoost) st)
           allPurchases) similarUsers"

definition like_pass ::
  "world \<Rightarrow> int set \<Rightarrow> int set \<Rightarrow> UserSimilarity list \<Rightarrow> UserProductLike list \<Rightarrow> aggregation \<Rightarrow> aggregation" where
  "like_pass w userLikedProducts userPurchasedProducts similarUsers allLikes =
     fold (\<lambda>simUser. fold (\<lambda>like st.
             if like_UserID like \<noteq> sim_UserID simUser then st
             else if like_ProductID like \<in> userLikedProducts \<or> like_ProductID like \<in> userPurchasedProducts then st
             else credit w (like_ProductID like) (fmul (SimilarityScore simUser) likeBoost) st)
           allLikes) similarUsers"

definition recommendation_of ::
  "(int \<rightharpoonup> Product) \<Rightarrow> int \<times> float64 \<Rightarrow> ProductRecommendation option" where
  "recommendation_of details entry =
     (case details (fst entry) of
        None \<Rightarrow> None
      | Some product \<Rightarrow>
          Some \<lparr>ProductID = fst entry, ProductName = product_Name product,
                CategoryID = categoryID_of product, Price = product_Price product,
                Score = snd entry, Reason = ''Users with similar interests liked this''\<rparr>)"

definition clamp_limit :: "int \<Rightarrow> int" where
  "clamp_limit limit = (if limit \<le> 0 \<or> limit > 50 then 10 else limit)"

definition aggregate ::
  "world \<Rightarrow> int set \<Rightarrow> int set \<Rightarrow> UserSimilarity list \<Rightarrow> UserProductPurchase list \<Rightarrow>
     UserProductLike list \<Rightarrow> aggregation" where
  "aggregate w userLikedProducts userPurchasedProducts similarUsers allPurchases allLikes =
     like_pass w userLikedProducts userPurchasedProducts similarUsers allLikes
       (purchase_pass w userPurchasedProducts similarUsers allPurchases
          \<lparr>productScores = [], productDetails = Map.empty\<rparr>)"

definition collaborative ::
  "world \<Rightarrow> int \<Rightarrow> int \<Rightarrow> UserProductLike list \<Rightarrow> UserProductPurchase list \<Rightarrow> int set \<Rightarrow> int set \<Rightarrow>
     UserSimilarity list \<Rightarrow> RecommendationResponse outcome" where
  "collaborative w userID limit allLikes allPurchases userLikedProducts userPurchasedProducts similarUsers =
     (let st = aggregate w userLikedProducts userPurchasedProducts similarUsers allPurchases allLikes;
          recommendations = List.map_filter (recommendation_of (productDetails st))
                              (range_map (range_productScores w) (productScores st))
      in case limit_results limit (sort_key (\<lambda>r. - Score r) recommendations) of
           Panic \<Rightarrow> Panic
         | Err err \<Rightarrow> Err err
         | Ok recommendations \<Rightarrow>
             if length recommendations = 0 then getPopularProducts w limit
             else Ok \<lparr>UserID = userID, Recommendations = recommendations,
                      Algorithm = ''collaborative_filtering'', GeneratedAt = now_RFC3339 w\<rparr>)"

definition GetRecommendations :: "world \<Rightarrow> int \<Rightarrow> int \<Rightarrow> RecommendationResponse outcome" where
  "GetRecommendations w userID limit0 =
     (let limit = clamp_limit limit0
      in case GetAllUserLikes w of
           Inl err \<Rightarrow> Err (Errorf ''get all likes'' err)
         | Inr allLikes \<Rightarrow>
        (case GetAllUserViews w of
           Inl err \<Rightarrow> Err (Errorf ''get all views'' err)
         | Inr allViews \<Rightarrow>
        (case GetAllUserPurchases w of
           Inl err \<Rightarrow> Err (Errorf ''get all purchases'' err)
         | Inr allPurchases \<Rightarrow>
            (let userLikedProducts = user_products like_UserID like_ProductID userID allLikes;
                 userViewedProducts = user_products view_UserID view_ProductID userID allViews;
                 userPurchasedProducts = user_products purchase_UserID purchase_ProductID userID allPurchases
             in if card userLikedProducts = 0 \<and> card userViewedProducts = 0 \<and> card userPurchasedProducts = 0
                then getPopularProducts w limit
                else
                  (case GetSimilarUsers w userID 10 of
                     Err err \<Rightarrow> Err (Errorf ''get similar users'' err)
                   | Panic \<Rightarrow> Panic
                   | Ok similarUsers \<Rightarrow>
                       if length similarUsers = 0 then getPopularProducts w limit
                       else collaborative w userID limit allLikes allPurchases
                              userLikedProducts userPurchasedProducts similarUsers)))))"

subsection \<open>The specification's vocabulary\<close>

text \<open>
  The interaction sets of a user, the Jaccard index, the weighted combination and the like
  count of a product, written from the specification's wording. They are compared below
  with what the code computes.
\<close>

definition products_of :: "('e \<Rightarrow> int) \<Rightarrow> ('e \<Rightarrow> int) \<Rightarrow> int \<Rightarrow> 'e list \<Rightarrow> int set" where
  "products_of uid_of pid_of u events = set (map pid_of (filter (\<lambda>ev. uid_of ev = u) events))"

definition liked_by :: "UserProductLike list \<Rightarrow> int \<Rightarrow> int set" where
  "liked_by allLikes u = products_of like_UserID like_ProductID u allLikes"

definition viewed_by :: "UserProductView list \<Rightarrow> int \<Rightarrow> int set" where
  "viewed_by allViews u = products_of view_UserID view_ProductID u allViews"

definition purchased_by :: "UserProductPurchase list \<Rightarrow> int \<Rightarrow> int set" where
  "purchased_by allPurchases u = products_of purchase_UserID purchase_ProductID u allPurchases"

definition jaccard :: "int set \<Rightarrow> int set \<Rightarrow> rat" where
  "jaccard A B = (if A \<union> B = {} then 0 else of_nat (card (A \<inter> B)) / of_nat (card (A \<union> B)))"

definition weighted_jaccard ::
  "UserProductLike list \<Rightarrow> UserProductView list \<Rightarrow> UserProductPurchase list \<Rightarrow> int \<Rightarrow> int \<Rightarrow> rat" where
  "weighted_jaccard allLikes allViews allPurchases a b =
     jaccard (purchased_by allPurchases a) (purchased_by allPurchases b) * (50/100)
   + jaccard (liked_by allLikes a) (liked_by allLikes b) * (35/100)
   + jaccard (viewed_by allViews a) (viewed_by allViews b) * (15/100)"

text \<open>The same index and combination in the code's arithmetic: the counts converted to
  \<^verbatim>\<open>float64\<close>, the quotient, the three products and the two sums each rounded.\<close>

definition jaccard64 :: "int set \<Rightarrow> int set \<Rightarrow> float64" where
  "jaccard64 A B =
     (if A \<union> B = {} then 0
      else fdiv (float64_of_int (int (card (A \<inter> B)))) (float64_of_int (int (card (A \<union> B)))))"

definition weighted_jaccard64 ::
  "UserProductLike list \<Rightarrow> UserProductView list \<Rightarrow> UserProductPurchase list \<Rightarrow> int \<Rightarrow> int \<Rightarrow> float64" where
  "weighted_jaccard64 allLikes allViews allPurchases a b =
     fadd (fadd (fmul (jaccard64 (purchased_by allPurchases a) (purchased_by allPurchases b)) purchaseWeight)
                (fmul (jaccard64 (liked_by allLikes a) (liked_by allLikes b)) likeWeight))
          (fmul (jaccard64 (viewed_by allViews a) (viewed_by allViews b)) viewWeight)"

definition like_count :: "UserProductLike list \<Rightarrow> int \<Rightarrow> int" where
  "like_count allLikes p = int (length (filter (\<lambda>like. like_ProductID like = p) allLikes))"

definition max_like_count :: "UserProductLike list \<Rightarrow> int" where
  "max_like_count allLikes =
     (if allLikes = [] then 1 else Max ((\<lambda>like. like_count allLikes (like_ProductID like)) ` set allLikes))"

definition descending :: "('a \<Rightarrow> 'b::linorder) \<Rightarrow> 'a list \<Rightarrow> bool" where
  "descending f xs = sorted_wrt (\<lambda>x y. f y \<le> f x) xs"

definition in_catalog :: "world \<Rightarrow> int \<Rightarrow> bool" where
  "in_catalog w productID = (case GetByID w productID of Inl err \<Rightarrow> False | Inr product \<Rightarrow> True)"

subsection \<open>Auxiliary notions\<close>

text \<open>
  The loop body of \<^verbatim>\<open>GetSimilarUsers\<close> applied to the interaction sets of two users, the
  users the loop visits, the sorted candidate list of \<^verbatim>\<open>GetRecommendations\<close> before
  truncation, and the invariant of the product cache: it only holds what the catalog returned.
\<close>

definition entry_for ::
  "UserProductLike list \<Rightarrow> UserProductView list \<Rightarrow> UserProductPurchase list \<Rightarrow> int \<Rightarrow> int \<Rightarrow> UserSimilarity option" where
  "entry_for allLikes allViews allPurchases u other =
     similarity_entry (liked_by allLikes u) (viewed_by allViews u) (purchased_by allPurchases u)
        (liked_by allLikes other) (viewed_by allViews other) (purchased_by allPurchases other) other"

definition other_users ::
  "UserProductLike list \<Rightarrow> UserProductView list \<Rightarrow> UserProductPurchase list \<Rightarrow> int \<Rightarrow> int set" where
  "other_users allLikes allViews allPurchases u =
     set (filter (\<lambda>x. x \<noteq> u)
            (map like_UserID allLikes @ map view_UserID allViews @ map purchase_UserID allPurchases))"

definition candidates :: "world \<Rightarrow> aggregation \<Rightarrow> ProductRecommendation list" where
  "candidates w st = sort_key (\<lambda>r. - Score r)
     (List.map_filter (recommendation_of (productDetails st))
        (range_map (range_productScores w) (productScores st)))"

definition cache_ok :: "world \<Rightarrow> aggregation \<Rightarrow> bool" where
  "cache_ok w st = (\<forall>p product. productDetails st p = Some product \<longrightarrow> GetByID w p = Inr product)"

text \<open>The place of a key in a list of keys: the ranking that visits a map in that order.\<close>

definition position :: "int list \<Rightarrow> int \<Rightarrow> int" where
  "position ks k = int (length (takeWhile (\<lambda>x. x \<noteq> k) ks))"

abbreviation (input) like_counts :: "UserProductLike list \<Rightarrow> (int \<times> int) list" where
  "like_counts allLikes \<equiv> fold (\<lambda>like. increment (like_ProductID like)) allLikes []"

abbreviation (input) split_step where
  "split_step uf pf u \<equiv> (\<lambda>ev (mine, others).
             if uf ev = u then (insert (pf ev) mine, others)
             else (mine, add_product (uf ev) (pf ev) others))"

subsection \<open>Sample stores\<close>

text \<open>Small stores on which the theorems below are exercised.\<close>

definition like_event :: "int \<Rightarrow> int \<Rightarrow> UserProductLike" where
  "like_event u p = \<lparr>like_UserID = u, like_ProductID = p, LikedAt = 0\<rparr>"

definition view_event :: "int \<Rightarrow> int \<Rightarrow> UserProductView" where
  "view_event u p = \<lparr>view_UserID = u, view_ProductID = p, ViewedAt = 0\<rparr>"

definition purchase_event :: "int \<Rightarrow> int \<Rightarrow> UserProductPurchase" where
  "purchase_event u p =
     \<lparr>purchase_UserID = u, purchase_ProductID = p, Quantity = 1, PriceAtPurchase = 10, PurchasedAt = 0\<rparr>"

definition catalog_product :: "int \<Rightarrow> Product" where
  "catalog_product p =
     \<lparr>product_ID = p, product_Name = ''item'', Description = [], product_CategoryID = None,
      product_Price = 10, Stock = 1, ImageURL = [], IsActive = True, CreatedAt = 0, UpdatedAt = 0\<rparr>"

definition store ::
  "UserProductLike list \<Rightarrow> UserProductView list \<Rightarrow> UserProductPurchase list \<Rightarrow> int list \<Rightarrow> world" where
  "store allLikes allViews allPurchases catalog =
     \<lparr>GetAllUserLikes = Inr allLikes, GetAllUserViews = Inr allViews, GetAllUserPurchases = Inr allPurchases,
      GetByID = (\<lambda>productID. if productID \<in> set catalog then Inr (catalog_product productID)
                               else Inl ErrNotFound),
      now_RFC3339 = ''2025-11-07T00:00:00Z'',
      range_allUserIDs = (\<lambda>k. k), range_productScores = (\<lambda>k. k), range_likeCounts = (\<lambda>k. k)\<rparr>"

definition likes_A :: "UserProductLike list" where
  "likes_A = [like_event 1 102, like_event 2 102]"
definition views_A :: "UserProductView list" where
  "views_A = [view_event 1 103, view_event 2 103, view_event 3 103, view_event 3 105]"
definition purchases_A :: "UserProductPurchase list" where
  "purchases_A = [purchase_event 1 101, purchase_event 2 101, purchase_event 3 101, purchase_event 3 104]"
definition world_A :: world where
  "world_A = store likes_A views_A purchases_A [101, 102, 103, 104, 105]"


definition likes_G :: "UserProductLike list" where
  "likes_G = [like_event 1 1, like_event 2 1, like_event 2 2]"
definition views_G :: "UserProductView list" where
  "views_G = [view_event 1 3, view_event 2 3]"
definition world_G :: world where
  "world_G = store likes_G views_G [] [1, 2, 3]"

definition likes_C :: "UserProductLike list" where
  "likes_C = [like_event 1 1, like_event 2 2, like_event 2 5]"
definition purchases_C :: "UserProductPurchase list" where
  "purchases_C = [purchase_event 1 3, purchase_event 2 4]"
definition world_C :: world where
  "world_C = store likes_C [] purchases_C [1, 2, 3, 4, 5]"

definition likes_D :: "UserProductLike list" where
  "likes_D = [like_event 2 1, like_event 3 1, like_event 2 2]"

definition world_D :: world where
  "world_D = store likes_D [] [] [2]"

definition world_F :: world where
  "world_F = store likes_D [] [] [1, 2]"

definition likes_E :: "UserProductLike list" where
  "likes_E = [like_event 2 103]"

definition purchases_E :: "UserProductPurchase list" where
  "purchases_E = [purchase_event 1 101, purchase_event 2 101, purchase_event 2 102]"

definition world_E :: world where
  "world_E = store likes_E [] purchases_E [101, 102]"


definition purchases_S :: "UserProductPurchase list" where
  "purchases_S = [purchase_event 1 101, purchase_event 2 101, purchase_event 2 102]"

definition world_S :: world where
  "world_S = store [] [] purchases_S [101, 102]"


section \<open>Properties\<close>

subsection \<open>Rounding to binary64\<close>

lemma round_even_bounds: "\<lfloor>m\<rfloor> \<le> round_even m \<and> round_even m \<le> \<lfloor>m\<rfloor> + 1"
  by (simp add: round_even_def Let_def)

lemma round_even_of_int [simp]: "round_even (of_int k) = k"
  by (simp add: round_even_def)

lemma round_even_mono: "m \<le> m' \<Longrightarrow> round_even m \<le> round_even m'"
proof -
  assume le: "m \<le> m'"
  then have f: "\<lfloor>m\<rfloor> \<le> \<lfloor>m'\<rfloor>" by (rule floor_mono)
  show ?thesis
  proof (cases "\<lfloor>m\<rfloor> = \<lfloor>m'\<rfloor>")
    case True
    then show ?thesis using le by (auto simp: round_even_def Let_def)
  next
    case False
    with f have "\<lfloor>m\<rfloor> + 1 \<le> \<lfloor>m'\<rfloor>" by simp
    with round_even_bounds [of m] round_even_bounds [of m'] show ?thesis by linarith
  qed
qed

lemma round_even_ge: "of_int k \<le> m \<Longrightarrow> k \<le> round_even m"
  using round_even_mono [of "of_int k" m] by simp

lemma round_even_le: "m \<le> of_int k \<Longrightarrow> round_even m \<le> k"
  using round_even_mono [of m "of_int k"] by simp

lemma round_even_error: "\<bar>of_int (round_even m) - m\<bar> \<le> 1/2"
proof -
  have "of_int \<lfloor>m\<rfloor> \<le> m" "m < of_int \<lfloor>m\<rfloor> + 1" by linarith+
  then show ?thesis by (auto simp: round_even_def Let_def abs_le_iff)
qed

lemma expo_bounds:
  assumes "0 < x"
  shows "2 powi (expo x) \<le> x \<and> x < 2 powi (expo x + 1)"
proof (cases "1 \<le> x")
  case True
  let ?n = "\<lfloor>x\<rfloor>"
  have n: "1 \<le> ?n" using True by simp
  then have b: "2 ^ nat (bitlen ?n - 1) \<le> ?n" "?n < 2 ^ nat (bitlen ?n)"
    using bitlen_bounds [of ?n] by simp_all
  have pos: "1 \<le> bitlen ?n" using n by (auto simp: bitlen_alt_def)
  have e: "expo x = bitlen ?n - 1" using True by (simp add: expo_def)
  have "(2::rat) powi (expo x) = of_int (2 ^ nat (bitlen ?n - 1))"
    using pos by (simp add: e power_int_def)
  also have "\<dots> \<le> of_int ?n" using b(1) by (simp only: of_int_le_iff)
  also have "\<dots> \<le> x" by simp
  finally have lo: "2 powi (expo x) \<le> x" .
  have "?n + 1 \<le> 2 ^ nat (bitlen ?n)" using b(2) by simp
  then have "(of_int (?n + 1) :: rat) \<le> of_int (2 ^ nat (bitlen ?n))" by (simp only: of_int_le_iff)
  moreover have "x < of_int (?n + 1)" by simp linarith
  moreover have "(2::rat) powi (expo x + 1) = of_int (2 ^ nat (bitlen ?n))"
    using pos by (simp add: e power_int_def)
  ultimately have "x < 2 powi (expo x + 1)" by simp
  with lo show ?thesis by simp
next
  case False
  let ?y = "1 / x"
  let ?m = "\<lceil>?y\<rceil> - 1"
  let ?k = "bitlen ?m"
  have y: "1 < ?y" using False assms by simp
  then have m: "1 \<le> ?m" by simp
  then have b: "2 ^ nat (?k - 1) \<le> ?m" "?m < 2 ^ nat ?k"
    using bitlen_bounds [of ?m] by simp_all
  have pos: "1 \<le> ?k" using m by (auto simp: bitlen_alt_def)
  have e: "expo x = - ?k" using False by (simp add: expo_def)
  have "?y \<le> of_int (?m + 1)" by simp
  also have "(of_int (?m + 1) :: rat) \<le> of_int (2 ^ nat ?k)"
    using b(2) by (simp only: of_int_le_iff)
  finally have "?y \<le> 2 ^ nat ?k" by simp
  then have "1 \<le> x * 2 ^ nat ?k" using assms by (simp add: field_simps)
  then have lo: "2 powi (expo x) \<le> x"
    using pos by (simp add: e power_int_def field_simps)
  have "(of_int (2 ^ nat (?k - 1)) :: rat) \<le> of_int ?m" using b(1) by (simp only: of_int_le_iff)
  also have "(of_int ?m :: rat) < ?y" by simp linarith
  finally have "2 ^ nat (?k - 1) < ?y" by simp
  then have "x * 2 ^ nat (?k - 1) < 1" using assms by (simp add: field_simps)
  then have xlt: "x < 1 / 2 ^ nat (?k - 1)" by (simp add: pos_less_divide_eq)
  have eq: "(2::rat) powi (expo x + 1) = 1 / 2 ^ nat (?k - 1)"
  proof (cases "?k = 1")
    case True then show ?thesis by (simp add: e)
  next
    case False
    with pos have "expo x + 1 < 0" "nat (- (expo x + 1)) = nat (?k - 1)" by (simp_all add: e)
    then show ?thesis by (simp add: power_int_def field_simps)
  qed
  have "x < 2 powi (expo x + 1)" unfolding eq by (rule xlt)
  with lo show ?thesis by simp
qed

lemma fl_pos_bounds:
  assumes "0 < x"
  shows "2 powi (expo x) \<le> fl_pos x \<and> fl_pos x \<le> 2 powi (expo x + 1)"
proof -
  let ?q = "(2::rat) powi (expo x - 52)"
  have q: "0 < ?q" by simp
  note b = expo_bounds [OF assms]
  have e0: "(2::rat) powi (expo x) = 2 ^ 52 * ?q"
    by (simp add: power_int_diff)
  have e1: "(2::rat) powi (expo x + 1) = 2 ^ 53 * ?q"
    by (simp add: power_int_diff power_int_add)
  have "2 ^ 52 * ?q \<le> x" using b [THEN conjunct1] unfolding e0 .
  then have "of_int (2 ^ 52) \<le> x / ?q" using q by (simp add: field_simps)
  then have "2 ^ 52 \<le> round_even (x / ?q)" by (rule round_even_ge)
  then have "(of_int (2 ^ 52) :: rat) \<le> of_int (round_even (x / ?q))" by (simp only: of_int_le_iff)
  then have lo: "2 ^ 52 * ?q \<le> of_int (round_even (x / ?q)) * ?q" using q by simp
  have "x < 2 ^ 53 * ?q" using b [THEN conjunct2] unfolding e1 .
  then have "x / ?q \<le> of_int (2 ^ 53)" using q by (simp add: field_simps)
  then have "round_even (x / ?q) \<le> 2 ^ 53" by (rule round_even_le)
  then have "(of_int (round_even (x / ?q)) :: rat) \<le> of_int (2 ^ 53)" by (simp only: of_int_le_iff)
  then have hi: "of_int (round_even (x / ?q)) * ?q \<le> 2 ^ 53 * ?q" using q by simp
  show ?thesis
    unfolding fl_pos_def Let_def e0 e1 using lo hi by simp
qed

lemma fl_pos_positive: "0 < x \<Longrightarrow> 0 < fl_pos x"
proof -
  assume "0 < x"
  from fl_pos_bounds [OF this] have "2 powi (expo x) \<le> fl_pos x" ..
  moreover have "(0::rat) < 2 powi (expo x)" by simp
  ultimately show ?thesis by linarith
qed

lemma fl_pos_mono:
  assumes "0 < x" "x \<le> y"
  shows "fl_pos x \<le> fl_pos y"
proof -
  have y: "0 < y" using assms by simp
  note bx = expo_bounds [OF assms(1)] and bndy = expo_bounds [OF y]
  have "\<not> expo y < expo x"
  proof
    assume "expo y < expo x"
    then have "(2::rat) powi (expo y + 1) \<le> 2 powi (expo x)" by (intro power_int_increasing) simp_all
    with bx bndy assms(2) show False by linarith
  qed
  then consider "expo x = expo y" | "expo x < expo y" by linarith
  then show ?thesis
  proof cases
    case 1
    let ?q = "(2::rat) powi (expo y - 52)"
    have q: "0 < ?q" by simp
    have "x / ?q \<le> y / ?q" using assms(2) q by (simp add: divide_right_mono)
    then have "round_even (x / ?q) \<le> round_even (y / ?q)" by (rule round_even_mono)
    then have "(of_int (round_even (x / ?q)) :: rat) \<le> of_int (round_even (y / ?q))"
      by (simp only: of_int_le_iff)
    then show ?thesis using q by (simp add: fl_pos_def Let_def 1)
  next
    case 2
    then have "(2::rat) powi (expo x + 1) \<le> 2 powi (expo y)" by (intro power_int_increasing) simp_all
    with fl_pos_bounds [OF assms(1)] fl_pos_bounds [OF y] show ?thesis by linarith
  qed
qed

text \<open>The rounded value is within half a unit in the last place of the exact one.\<close>

lemma fl_pos_error:
  assumes "0 < x"
  shows "\<bar>fl_pos x - x\<bar> \<le> x / 2 ^ 53"
proof -
  define q :: rat where "q = 2 powi (expo x - 52)"
  define r :: rat where "r = of_int (round_even (x / q))"
  have q: "0 < q" by (simp add: q_def)
  have f: "fl_pos x = r * q" by (simp add: fl_pos_def Let_def q_def r_def)
  have "\<bar>r - x / q\<bar> \<le> 1/2" unfolding r_def by (rule round_even_error)
  then have "\<bar>r - x / q\<bar> * q \<le> 1/2 * q"
    using q by (simp only: mult_le_cancel_right_pos)
  moreover have "r * q - x = (r - x / q) * q" using q by (simp add: left_diff_distrib)
  then have "\<bar>fl_pos x - x\<bar> = \<bar>r - x / q\<bar> * q"
    unfolding f using q by (simp only: abs_mult abs_of_pos)
  moreover have "2 ^ 52 * q \<le> x"
    using expo_bounds [OF assms, THEN conjunct1] by (simp add: power_int_diff q_def)
  then have "1/2 * q \<le> x / 2 ^ 53" by simp
  ultimately show ?thesis by linarith
qed

lemma to_float64_mono: "x \<le> y \<Longrightarrow> to_float64 x \<le> to_float64 y"
proof -
  assume le: "x \<le> y"
  consider "0 < x" | "x = 0" | "x < 0" by linarith
  then show ?thesis
  proof cases
    case 1
    then show ?thesis using le fl_pos_mono [of x y] by (simp add: to_float64_def)
  next
    case 2
    then show ?thesis using le fl_pos_positive [of y] by (auto simp: to_float64_def less_le)
  next
    case 3
    consider "0 < y" | "y = 0" | "y < 0" by linarith
    then show ?thesis
    proof cases
      case 1
      with 3 fl_pos_positive [of y] fl_pos_positive [of "- x"] show ?thesis by (simp add: to_float64_def)
    next
      case 2
      with 3 fl_pos_positive [of "- x"] show ?thesis by (simp add: to_float64_def)
    next
      case 3
      with \<open>x < 0\<close> le fl_pos_mono [of "- y" "- x"] show ?thesis by (simp add: to_float64_def)
    qed
  qed
qed

lemma to_float64_zero [simp]: "to_float64 0 = 0"
  by (simp add: to_float64_def)

lemma to_float64_one [simp]: "to_float64 1 = 1"
  by code_simp

lemma to_float64_positive: "0 < x \<Longrightarrow> 0 < to_float64 x"
  by (simp add: to_float64_def fl_pos_positive)

lemma to_float64_nonneg: "0 \<le> x \<Longrightarrow> 0 \<le> to_float64 x"
  using to_float64_mono [of 0 x] by simp

lemma to_float64_le_one: "x \<le> 1 \<Longrightarrow> to_float64 x \<le> 1"
  using to_float64_mono [of x 1] by simp

lemma to_float64_error: "\<bar>to_float64 x - x\<bar> \<le> \<bar>x\<bar> / 2 ^ 53"
proof -
  consider "0 < x" | "x = 0" | "x < 0" by linarith
  then show ?thesis
  proof cases
    case 1 then show ?thesis using fl_pos_error [of x] by (simp add: to_float64_def)
  next
    case 2 then show ?thesis by simp
  next
    case 3
    then have "\<bar>fl_pos (- x) - (- x)\<bar> \<le> (- x) / 2 ^ 53" by (intro fl_pos_error) simp
    moreover have "\<bar>- fl_pos (- x) - x\<bar> = \<bar>fl_pos (- x) - (- x)\<bar>" by (simp add: abs_minus_commute)
    ultimately show ?thesis using 3 by (simp add: to_float64_def)
  qed
qed

lemma float64_of_int_zero [simp]: "float64_of_int 0 = 0"
  by (simp add: float64_of_int_def)

lemma float64_of_int_mono: "m \<le> n \<Longrightarrow> float64_of_int m \<le> float64_of_int n"
  by (simp add: float64_of_int_def to_float64_mono)

lemma float64_of_int_ge_one: "1 \<le> n \<Longrightarrow> 1 \<le> float64_of_int n"
  using to_float64_mono [of 1 "of_int n"] by (simp add: float64_of_int_def)

lemma fdiv_zero [simp]: "fdiv 0 y = 0"
  by (simp add: fdiv_def)

lemma fdiv_same: "x \<noteq> 0 \<Longrightarrow> fdiv x x = 1"
  by (simp add: fdiv_def)

lemma fdiv_range: "0 \<le> x \<Longrightarrow> x \<le> y \<Longrightarrow> 0 < y \<Longrightarrow> 0 \<le> fdiv x y \<and> fdiv x y \<le> 1"
  by (simp add: fdiv_def to_float64_nonneg to_float64_le_one)

lemma fdiv_positive: "0 < x \<Longrightarrow> 0 < y \<Longrightarrow> 0 < fdiv x y"
  by (simp add: fdiv_def to_float64_positive)

lemma fdiv_mono: "x \<le> x' \<Longrightarrow> 0 < y \<Longrightarrow> fdiv x y \<le> fdiv x' y"
  by (simp add: fdiv_def to_float64_mono divide_right_mono)

lemma fmul_zero [simp]: "fmul 0 y = 0"
  by (simp add: fmul_def)

lemma fmul_nonneg: "0 \<le> x \<Longrightarrow> 0 \<le> y \<Longrightarrow> 0 \<le> fmul x y"
  by (simp add: fmul_def to_float64_nonneg)

lemma fmul_le: "0 \<le> x \<Longrightarrow> x \<le> 1 \<Longrightarrow> 0 \<le> y \<Longrightarrow> fmul x y \<le> to_float64 y"
  unfolding fmul_def by (rule to_float64_mono) (simp add: mult_left_le_one_le)

lemma fadd_nonneg: "0 \<le> x \<Longrightarrow> 0 \<le> y \<Longrightarrow> 0 \<le> fadd x y"
  by (simp add: fadd_def to_float64_nonneg)

lemma fadd_mono: "x \<le> x' \<Longrightarrow> y \<le> y' \<Longrightarrow> fadd x y \<le> fadd x' y'"
  by (simp add: fadd_def to_float64_mono add_mono)

text \<open>The literals of the code and the sum of the three weights, evaluated.\<close>

lemma weights_sum_to_one:
  "fadd (fadd (fmul 1 purchaseWeight) (fmul 1 likeWeight)) (fmul 1 viewWeight) = 1"
  by code_simp

lemma weight_literals:
  "purchaseWeight = 1/2"
  "to_float64 purchaseWeight = 1/2"
  "to_float64 likeWeight = likeWeight"
  "to_float64 viewWeight = viewWeight"
  "0 \<le> likeWeight" "0 \<le> viewWeight"
  "fadd (fadd (1/2) likeWeight) viewWeight = 1"
  by code_simp+

lemma threshold_literal: "1/10 < similarityThreshold"
  by code_simp

lemma boost_literals: "purchaseBoost = 3" "likeBoost = 3/2"
  by code_simp+


text \<open>An integer below \<open>2\<^sup>5\<^sup>3\<close> is converted without rounding.\<close>

lemma powi_below_one:
  assumes "b \<le> 53"
  shows "(2::rat) powi (b - 1 - 52) = 1 / 2 ^ nat (53 - b)"
proof -
  define k where "k = nat (53 - b)"
  have "b - 1 - 52 = - int k" using assms by (simp add: k_def)
  then have "(2::rat) powi (b - 1 - 52) = 2 powi (- int k)" by (rule arg_cong)
  also have "\<dots> = inverse (2 powi int k)" by (rule power_int_minus)
  also have "\<dots> = 1 / 2 ^ k" by (simp only: power_int_of_nat inverse_eq_divide)
  finally show ?thesis unfolding k_def .
qed

lemma float64_of_int_exact:
  assumes "0 \<le> n" "n < 2 ^ 53"
  shows "float64_of_int n = of_int n"
proof (cases "n = 0")
  case True then show ?thesis by (simp add: float64_of_int_zero)
next
  case False
  with assms have pos: "0 < n" by simp
  have b: "bitlen n \<le> 53" using bitlen_le_iff_power [of n 53] assms(2) by simp
  define k where "k = nat (53 - bitlen n)"
  have e: "expo (of_int n) = bitlen n - 1" using pos by (simp add: expo_def)
  have q: "(2::rat) powi (expo (of_int n) - 52) = 1 / 2 ^ k"
    unfolding e k_def using b by (rule powi_below_one)
  have "fl_pos (of_int n) = of_int (round_even (of_int (n * 2 ^ k))) * (1 / 2 ^ k)"
    unfolding fl_pos_def Let_def q by simp
  also have "\<dots> = of_int n" by (simp only: round_even_of_int) simp
  finally show ?thesis using pos by (simp add: float64_of_int_def to_float64_def)
qed

lemma fdiv_of_int_exact:
  assumes "0 \<le> c" "c \<le> m" "m < 2 ^ 53"
  shows "fdiv (float64_of_int c) (float64_of_int m) = to_float64 (of_int c / of_int m)"
proof -
  have "0 \<le> m" "c < 2 ^ 53" using assms by linarith+
  then show ?thesis
    using assms by (simp only: fdiv_def float64_of_int_exact)
qed

subsection \<open>Interaction sets\<close>

lemma finite_products_of [simp]: "finite (products_of uf pf u evs)"
  by (simp add: products_of_def)

lemma products_of_Cons:
  "products_of uf pf u (e # evs) =
     (if uf e = u then insert (pf e) (products_of uf pf u evs) else products_of uf pf u evs)"
  by (auto simp: products_of_def)

lemma products_of_Nil [simp]: "products_of uf pf u [] = {}"
  by (simp add: products_of_def)

lemma fold_user_products:
  "fold (\<lambda>ev mine. if uf ev = u then insert (pf ev) mine else mine) evs S = S \<union> products_of uf pf u evs"
  by (induction evs arbitrary: S) (auto simp: products_of_Cons)

lemma user_products_eq: "user_products uf pf u evs = products_of uf pf u evs"
  by (simp add: user_products_def fold_user_products)

lemma lookup_set_add_product:
  "lookup_set (add_product uid pid m) k = (if k = uid then insert pid (lookup_set m uid) else lookup_set m k)"
  by (simp add: lookup_set_def add_product_def update_conv')

lemma keys_add_product: "fst ` set (add_product uid pid m) = insert uid (fst ` set m)"
  by (simp add: add_product_def dom_update)

lemma fold_split_fst:
  "fst (fold (split_step uf pf u) evs (S, m)) = S \<union> products_of uf pf u evs"
  by (induction evs arbitrary: S m) (auto simp: products_of_Cons)

lemma fold_split_lookup:
  "lookup_set (snd (fold (split_step uf pf u) evs (S, m))) k =
     lookup_set m k \<union> (if k = u then {} else products_of uf pf k evs)"
  by (induction evs arbitrary: S m) (auto simp: products_of_Cons lookup_set_add_product)

lemma fold_split_keys:
  "fst ` set (snd (fold (split_step uf pf u) evs (S, m))) =
     fst ` set m \<union> {uf ev |ev. ev \<in> set evs \<and> uf ev \<noteq> u}"
  by (induction evs arbitrary: S m) (auto simp: keys_add_product)

lemma split_by_user_fst: "fst (split_by_user uf pf u evs) = products_of uf pf u evs"
  by (simp add: split_by_user_def fold_split_fst)

lemma lookup_set_Nil [simp]: "lookup_set [] k = {}"
  by (simp add: lookup_set_def)

lemma split_by_user_lookup:
  "lookup_set (snd (split_by_user uf pf u evs)) k = (if k = u then {} else products_of uf pf k evs)"
  by (simp add: split_by_user_def fold_split_lookup)

lemma split_by_user_keys:
  "set (map fst (snd (split_by_user uf pf u evs))) = {uf ev |ev. ev \<in> set evs \<and> uf ev \<noteq> u}"
  by (simp add: split_by_user_def fold_split_keys)

lemma count_common_eq: "count_common A B = int (card (A \<inter> B))"
proof -
  have "Set.filter (\<lambda>p. p \<in> B) A = A \<inter> B" by auto
  then show ?thesis by (simp add: count_common_def)
qed

lemma ratio_jaccard:
  assumes "finite A" "finite B"
  shows "ratio (count_common A B) (int (card A) + int (card B) - count_common A B) = jaccard64 A B"
proof -
  have u: "int (card A) + int (card B) - int (card (A \<inter> B)) = int (card (A \<union> B))"
    using card_Un_Int [OF assms] by simp
  have "card (A \<union> B) = 0 \<longleftrightarrow> A \<union> B = {}" using assms by simp
  then show ?thesis
    by (auto simp: ratio_def jaccard64_def count_common_eq u simp del: Un_empty)
qed

subsection \<open>The Jaccard index\<close>

lemma jaccard_disjoint: "A \<inter> B = {} \<Longrightarrow> jaccard A B = 0"
  by (simp add: jaccard_def)

lemma jaccard64_disjoint: "A \<inter> B = {} \<Longrightarrow> jaccard64 A B = 0"
  by (simp add: jaccard64_def)

lemma jaccard64_range: "finite A \<Longrightarrow> finite B \<Longrightarrow> 0 \<le> jaccard64 A B \<and> jaccard64 A B \<le> 1"
proof (cases "A \<union> B = {}")
  case True then show ?thesis by (simp add: jaccard64_def)
next
  case False
  assume f: "finite A" "finite B"
  have "card (A \<inter> B) \<le> card (A \<union> B)"
    using f by (intro card_mono) auto
  then have le: "float64_of_int (int (card (A \<inter> B))) \<le> float64_of_int (int (card (A \<union> B)))"
    by (intro float64_of_int_mono) simp
  have "1 \<le> int (card (A \<union> B))" using False f by (simp add: Suc_le_eq card_gt_0_iff)
  then have "1 \<le> float64_of_int (int (card (A \<union> B)))" by (rule float64_of_int_ge_one)
  then have pos: "0 < float64_of_int (int (card (A \<union> B)))" by linarith
  have "0 \<le> float64_of_int (int (card (A \<inter> B)))"
    using float64_of_int_mono [of 0 "int (card (A \<inter> B))"] by simp
  from fdiv_range [OF this le pos] False show ?thesis by (simp add: jaccard64_def)
qed

lemma jaccard64_same: "finite A \<Longrightarrow> jaccard64 A A = (if A = {} then 0 else 1)"
proof (cases "A = {}")
  case True then show ?thesis by (simp add: jaccard64_def)
next
  case False
  assume "finite A"
  with False have "1 \<le> int (card A)" by (simp add: Suc_le_eq card_gt_0_iff)
  then have "1 \<le> float64_of_int (int (card A))" by (rule float64_of_int_ge_one)
  then have "float64_of_int (int (card A)) \<noteq> 0" by linarith
  then show ?thesis using False by (simp add: jaccard64_def fdiv_same)
qed

text \<open>For sets of fewer than \<open>2\<^sup>5\<^sup>3\<close> products the index of the code is the exact index,
  rounded once.\<close>

lemma jaccard64_rounds_jaccard:
  assumes "finite A" "finite B" "card (A \<union> B) < 2 ^ 53"
  shows "jaccard64 A B = to_float64 (jaccard A B)"
proof (cases "A \<union> B = {}")
  case True then show ?thesis by (simp add: jaccard64_def jaccard_def to_float64_zero)
next
  case False
  have "card (A \<inter> B) \<le> card (A \<union> B)" using assms by (intro card_mono) auto
  from this assms(3) have "card (A \<inter> B) < 2 ^ 53" by (rule le_less_trans)
  then have c: "int (card (A \<inter> B)) < 2 ^ 53" "int (card (A \<union> B)) < 2 ^ 53"
    using assms(3) by (simp_all only: flip: of_nat_less_iff [where 'a = int]) simp_all
  show ?thesis
    using False float64_of_int_exact [OF _ c(1)] float64_of_int_exact [OF _ c(2)]
    by (simp add: jaccard64_def jaccard_def fdiv_def)
qed

lemma similarity_entry_eq:
  assumes "finite L" "finite V" "finite P" "finite L'" "finite V'" "finite P'"
  shows "similarity_entry L V P L' V' P' other =
     (if L \<inter> L' = {} \<and> V \<inter> V' = {} \<and> P \<inter> P' = {} then None
      else if fadd (fadd (fmul (jaccard64 P P') purchaseWeight) (fmul (jaccard64 L L') likeWeight))
                   (fmul (jaccard64 V V') viewWeight) < similarityThreshold then None
      else Some \<lparr>sim_UserID = other,
                 SimilarityScore =
                   fadd (fadd (fmul (jaccard64 P P') purchaseWeight) (fmul (jaccard64 L L') likeWeight))
                        (fmul (jaccard64 V V') viewWeight),
                 CommonLikes = int (card (L \<inter> L')), CommonViews = int (card (V \<inter> V'))\<rparr>)"
proof -
  have c: "count_common L L' = 0 \<longleftrightarrow> L \<inter> L' = {}" "count_common V V' = 0 \<longleftrightarrow> V \<inter> V' = {}"
    "count_common P P' = 0 \<longleftrightarrow> P \<inter> P' = {}"
    using assms by (simp_all add: count_common_eq)
  show ?thesis
    unfolding similarity_entry_def Let_def c
    by (simp only: ratio_jaccard assms) (simp add: count_common_eq)
qed

lemma other_users_eq:
  "other_users allLikes allViews allPurchases u =
     {x. x \<noteq> u \<and> (x \<in> like_UserID ` set allLikes \<or> x \<in> view_UserID ` set allViews
                    \<or> x \<in> purchase_UserID ` set allPurchases)}"
  by (auto simp: other_users_def)

lemma map_filter_agree:
  "(\<And>x. x \<in> set xs \<Longrightarrow> f x = g x) \<Longrightarrow> List.map_filter f xs = List.map_filter g xs"
  by (induction xs) (auto simp: List.map_filter_simps split: option.splits)

lemma similar_users_unfold:
  "\<exists>ids. set ids = other_users allLikes allViews allPurchases u \<and> distinct ids \<and>
     (\<forall>limit. similar_users rank u limit allLikes allViews allPurchases =
       limit_results limit (sort_key (\<lambda>s. - SimilarityScore s)
          (List.map_filter (entry_for allLikes allViews allPurchases u) ids)))"
proof -
  let ?sl = "split_by_user like_UserID like_ProductID u allLikes"
  let ?sv = "split_by_user view_UserID view_ProductID u allViews"
  let ?sp = "split_by_user purchase_UserID purchase_ProductID u allPurchases"
  let ?ids = "sort_key rank (remdups (map fst (snd ?sl) @ map fst (snd ?sv) @ map fst (snd ?sp)))"
  have ids: "set ?ids = other_users allLikes allViews allPurchases u"
    by (simp only: set_sort set_remdups set_append split_by_user_keys) (auto simp: other_users_eq)
  have "List.map_filter (\<lambda>other. similarity_entry (fst ?sl) (fst ?sv) (fst ?sp)
            (lookup_set (snd ?sl) other) (lookup_set (snd ?sv) other) (lookup_set (snd ?sp) other) other) ?ids
        = List.map_filter (entry_for allLikes allViews allPurchases u) ?ids"
  proof (rule map_filter_agree)
    fix x assume "x \<in> set ?ids"
    then have "x \<noteq> u" unfolding ids by (simp add: other_users_eq)
    then show "similarity_entry (fst ?sl) (fst ?sv) (fst ?sp)
            (lookup_set (snd ?sl) x) (lookup_set (snd ?sv) x) (lookup_set (snd ?sp) x) x
           = entry_for allLikes allViews allPurchases u x"
      by (simp add: entry_for_def split_by_user_fst split_by_user_lookup liked_by_def viewed_by_def purchased_by_def)
  qed
  then have "\<forall>limit. similar_users rank u limit allLikes allViews allPurchases =
       limit_results limit (sort_key (\<lambda>s. - SimilarityScore s)
          (List.map_filter (entry_for allLikes allViews allPurchases u) ?ids))"
    by (simp add: similar_users_def split_beta Let_def)
  moreover have "distinct ?ids" by simp
  ultimately show ?thesis using ids by blast
qed

subsection \<open>Truncation and the result of GetSimilarUsers\<close>

lemma limit_results_subset: "limit_results limit xs = Ok ys \<Longrightarrow> set ys \<subseteq> set xs"
  by (auto simp: limit_results_def split: if_splits dest: in_set_takeD)

lemma limit_results_length: "limit_results limit xs = Ok ys \<Longrightarrow> int (length ys) \<le> limit"
  by (auto simp: limit_results_def split: if_splits)

lemma limit_results_negative: "limit < 0 \<Longrightarrow> limit_results limit xs = Panic"
  by (simp add: limit_results_def)

lemma limit_results_zero: "limit_results 0 xs = Ok []"
  by (simp add: limit_results_def)

lemma limit_results_Nil: "0 \<le> limit \<Longrightarrow> limit_results limit [] = Ok []"
  by (simp add: limit_results_def)

lemma limit_results_total: "0 \<le> limit \<Longrightarrow> \<exists>ys. limit_results limit xs = Ok ys"
  by (simp add: limit_results_def)

lemma limit_results_not_Err: "limit_results limit xs \<noteq> Err e"
  by (simp add: limit_results_def)

lemma set_map_filter: "set (List.map_filter f xs) = {y. \<exists>x \<in> set xs. f x = Some y}"
  by (induction xs) (auto split: option.splits)

lemma length_map_filter: "length (List.map_filter f xs) \<le> length xs"
  by (induction xs) (auto split: option.splits)

lemma GetSimilarUsers_reads:
  "GetAllUserLikes w = Inr allLikes \<Longrightarrow> GetAllUserViews w = Inr allViews \<Longrightarrow>
   GetAllUserPurchases w = Inr allPurchases \<Longrightarrow>
   GetSimilarUsers w u limit = similar_users (range_allUserIDs w) u limit allLikes allViews allPurchases"
  by (simp add: GetSimilarUsers_def)

lemma similar_users_member:
  assumes "similar_users rank u limit allLikes allViews allPurchases = Ok sims" "s \<in> set sims"
  shows "\<exists>other \<in> other_users allLikes allViews allPurchases u.
           entry_for allLikes allViews allPurchases u other = Some s"
proof -
  obtain ids where ids: "set ids = other_users allLikes allViews allPurchases u"
    and eq: "similar_users rank u limit allLikes allViews allPurchases =
       limit_results limit (sort_key (\<lambda>s. - SimilarityScore s)
          (List.map_filter (entry_for allLikes allViews allPurchases u) ids))"
    using similar_users_unfold [of allLikes allViews allPurchases u rank] by blast
  from assms eq have "s \<in> set (sort_key (\<lambda>s. - SimilarityScore s)
          (List.map_filter (entry_for allLikes allViews allPurchases u) ids))"
    using limit_results_subset by fastforce
  then have "s \<in> set (List.map_filter (entry_for allLikes allViews allPurchases u) ids)"
    by simp
  then show ?thesis
    unfolding set_map_filter ids by blast
qed

lemma entry_for_eq:
  "entry_for allLikes allViews allPurchases u other =
     (if liked_by allLikes u \<inter> liked_by allLikes other = {} \<and>
         viewed_by allViews u \<inter> viewed_by allViews other = {} \<and>
         purchased_by allPurchases u \<inter> purchased_by allPurchases other = {} then None
      else if weighted_jaccard64 allLikes allViews allPurchases u other < similarityThreshold then None
      else Some \<lparr>sim_UserID = other,
                 SimilarityScore = weighted_jaccard64 allLikes allViews allPurchases u other,
                 CommonLikes = int (card (liked_by allLikes u \<inter> liked_by allLikes other)),
                 CommonViews = int (card (viewed_by allViews u \<inter> viewed_by allViews other))\<rparr>)"
  unfolding entry_for_def weighted_jaccard64_def
  by (subst similarity_entry_eq) (simp_all add: liked_by_def viewed_by_def purchased_by_def)

lemma weighted_jaccard64_range:
  "0 \<le> weighted_jaccard64 allLikes allViews allPurchases a b \<and>
   weighted_jaccard64 allLikes allViews allPurchases a b \<le> 1"
proof -
  let ?p = "jaccard64 (purchased_by allPurchases a) (purchased_by allPurchases b)"
  let ?l = "jaccard64 (liked_by allLikes a) (liked_by allLikes b)"
  let ?v = "jaccard64 (viewed_by allViews a) (viewed_by allViews b)"
  have p: "0 \<le> ?p" "?p \<le> 1"
    using jaccard64_range [of "purchased_by allPurchases a" "purchased_by allPurchases b"]
    by (simp_all add: purchased_by_def)
  have l: "0 \<le> ?l" "?l \<le> 1"
    using jaccard64_range [of "liked_by allLikes a" "liked_by allLikes b"]
    by (simp_all add: liked_by_def)
  have v: "0 \<le> ?v" "?v \<le> 1"
    using jaccard64_range [of "viewed_by allViews a" "viewed_by allViews b"]
    by (simp_all add: viewed_by_def)
  have w: "(0::rat) \<le> purchaseWeight" by (simp add: weight_literals)
  have lo: "0 \<le> fadd (fadd (fmul ?p purchaseWeight) (fmul ?l likeWeight))
                      (fmul ?v viewWeight)"
    by (intro fadd_nonneg fmul_nonneg p l v w weight_literals(5,6))
  have "fmul ?p purchaseWeight \<le> 1/2"
    using fmul_le [OF p w] unfolding weight_literals(2) .
  moreover have "fmul ?l likeWeight \<le> likeWeight"
    using fmul_le [OF l weight_literals(5)] unfolding weight_literals(3) .
  moreover have "fmul ?v viewWeight \<le> viewWeight"
    using fmul_le [OF v weight_literals(6)] unfolding weight_literals(4) .
  ultimately have "fadd (fadd (fmul ?p purchaseWeight) (fmul ?l likeWeight))
                      (fmul ?v viewWeight)
                   \<le> fadd (fadd (1/2) likeWeight) viewWeight"
    by (intro fadd_mono)
  then have hi: "fadd (fadd (fmul ?p purchaseWeight) (fmul ?l likeWeight))
                      (fmul ?v viewWeight) \<le> 1"
    unfolding weight_literals(7) .
  show ?thesis
    unfolding weighted_jaccard64_def using lo hi by simp
qed

lemma weighted_jaccard64_identical:
  assumes "purchased_by allPurchases b = purchased_by allPurchases a"
    "liked_by allLikes b = liked_by allLikes a" "viewed_by allViews b = viewed_by allViews a"
  shows "weighted_jaccard64 allLikes allViews allPurchases a b =
     fadd (fadd (fmul (if purchased_by allPurchases a = {} then 0 else 1) purchaseWeight)
                (fmul (if liked_by allLikes a = {} then 0 else 1) likeWeight))
          (fmul (if viewed_by allViews a = {} then 0 else 1) viewWeight)"
  unfolding weighted_jaccard64_def assms
  by (simp add: jaccard64_same liked_by_def viewed_by_def purchased_by_def)

lemma weighted_jaccard64_identical_full:
  assumes "purchased_by allPurchases b = purchased_by allPurchases a"
    "liked_by allLikes b = liked_by allLikes a" "viewed_by allViews b = viewed_by allViews a"
    "purchased_by allPurchases a \<noteq> {}" "liked_by allLikes a \<noteq> {}" "viewed_by allViews a \<noteq> {}"
  shows "weighted_jaccard64 allLikes allViews allPurchases a b = 1"
  using weighted_jaccard64_identical [OF assms(1-3)] assms(4-6) weights_sum_to_one by simp

text \<open>Two users with the same purchases and no likes or views: the like and view terms are
  \<open>0\<close>, and the score is \<open>0.5\<close>.\<close>

lemma weighted_jaccard64_identical_purchases_only:
  assumes "purchased_by allPurchases b = purchased_by allPurchases a"
    "liked_by allLikes b = liked_by allLikes a" "viewed_by allViews b = viewed_by allViews a"
    "purchased_by allPurchases a \<noteq> {}" "liked_by allLikes a = {}" "viewed_by allViews a = {}"
  shows "weighted_jaccard64 allLikes allViews allPurchases a b = 1/2"
proof -
  have "fadd (fadd (fmul 1 purchaseWeight) 0) 0 = 1/2" by code_simp
  with weighted_jaccard64_identical [OF assms(1-3)] assms(4-6) show ?thesis by simp
qed

lemma weighted_jaccard64_disjoint:
  assumes "purchased_by allPurchases a \<inter> purchased_by allPurchases b = {} \<and>
           liked_by allLikes a \<inter> liked_by allLikes b = {} \<and>
           viewed_by allViews a \<inter> viewed_by allViews b = {}"
  shows "weighted_jaccard64 allLikes allViews allPurchases a b = 0"
proof -
  have "fadd (fadd (fmul 0 purchaseWeight) (fmul 0 likeWeight)) (fmul 0 viewWeight) = 0"
    by code_simp
  with assms show ?thesis
    by (simp add: weighted_jaccard64_def jaccard64_disjoint)
qed

lemma threshold_positive: "0 < similarityThreshold"
  using threshold_literal by linarith

lemma store_reads:
  "GetAllUserLikes (store ls vs ps c) = Inr ls" "GetAllUserViews (store ls vs ps c) = Inr vs"
  "GetAllUserPurchases (store ls vs ps c) = Inr ps"
  by (simp_all add: store_def)

subsection \<open>Like counts and the popularity ranking\<close>

lemma lookup_num_Nil [simp]: "lookup_num [] k = 0"
  by (simp add: lookup_num_def)

lemma lookup_num_increment:
  "lookup_num (increment k m) j = (if j = k then lookup_num m k + 1 else lookup_num m j)"
  by (simp add: lookup_num_def increment_def update_conv')

lemma keys_increment: "fst ` set (increment k m) = insert k (fst ` set m)"
  by (simp add: increment_def dom_update)

lemma distinct_increment: "distinct (map fst m) \<Longrightarrow> distinct (map fst (increment k m))"
  by (simp add: increment_def distinct_update)

lemma fold_increment_lookup:
  "lookup_num (fold (\<lambda>like. increment (like_ProductID like)) ls m) p = lookup_num m p + like_count ls p"
  by (induction ls arbitrary: m) (auto simp: lookup_num_increment like_count_def)

lemma fold_increment_keys:
  "fst ` set (fold (\<lambda>like. increment (like_ProductID like)) ls m) = fst ` set m \<union> like_ProductID ` set ls"
  by (induction ls arbitrary: m) (auto simp: keys_increment)

lemma fold_increment_distinct:
  "distinct (map fst m) \<Longrightarrow> distinct (map fst (fold (\<lambda>like. increment (like_ProductID like)) ls m))"
  by (induction ls arbitrary: m) (auto simp: distinct_increment)

lemma lookup_num_member:
  "distinct (map fst m) \<Longrightarrow> (k, v) \<in> set m \<Longrightarrow> lookup_num m k = v"
  by (simp add: lookup_num_def)

lemma like_counts_entries:
  "set (like_counts ls) = {(p, like_count ls p) |p. p \<in> like_ProductID ` set ls}"
proof -
  have d: "distinct (map fst (like_counts ls))"
    by (rule fold_increment_distinct) simp
  have k: "fst ` set (like_counts ls) = like_ProductID ` set ls"
    by (simp add: fold_increment_keys)
  have l: "lookup_num (like_counts ls) p = like_count ls p" for p
    by (simp add: fold_increment_lookup)
  show ?thesis
  proof (intro set_eqI iffI)
    fix x assume x: "x \<in> set (like_counts ls)"
    then have "fst x \<in> like_ProductID ` set ls" using k by (metis imageI)
    moreover have "snd x = like_count ls (fst x)"
      using lookup_num_member [OF d, of "fst x" "snd x"] x l by simp
    ultimately show "x \<in> {(p, like_count ls p) |p. p \<in> like_ProductID ` set ls}"
      by (cases x) auto
  next
    fix x assume "x \<in> {(p, like_count ls p) |p. p \<in> like_ProductID ` set ls}"
    then obtain p where p: "x = (p, like_count ls p)" "p \<in> like_ProductID ` set ls" by blast
    then have "p \<in> fst ` set (like_counts ls)" using k by simp
    then obtain c where c: "(p, c) \<in> set (like_counts ls)" by auto
    then have "c = like_count ls p" using lookup_num_member [OF d c] l by simp
    with c p show "x \<in> set (like_counts ls)" by simp
  qed
qed

lemma like_count_positive: "p \<in> like_ProductID ` set ls \<Longrightarrow> 0 < like_count ls p"
  by (auto simp: like_count_def filter_empty_conv)

lemma like_count_le_max: "like \<in> set ls \<Longrightarrow> like_count ls (like_ProductID like) \<le> max_like_count ls"
  by (auto simp: max_like_count_def)

lemma max_like_count_positive: "0 < max_like_count ls"
proof (cases "ls = []")
  case True then show ?thesis by (simp add: max_like_count_def)
next
  case False
  then obtain l where l: "l \<in> set ls" by (cases ls) auto
  then have "0 < like_count ls (like_ProductID l)" by (simp add: like_count_positive)
  with like_count_le_max [OF l] show ?thesis by linarith
qed

lemma limit_results_cases:
  "0 \<le> limit \<Longrightarrow> \<exists>k. limit_results limit xs = Ok (take k xs) \<and> int (length (take k xs)) \<le> limit \<and>
      (0 < limit \<longrightarrow> 0 < k)"
  by (cases "int (length xs) > limit") (auto simp: limit_results_def intro: exI [of _ "nat limit"] exI [of _ "Suc (length xs)"])

lemma descending_take: "descending f xs \<Longrightarrow> descending f (take k xs)"
  by (simp add: descending_def)

lemma descending_sort_key: "descending f (sort_key (\<lambda>x. - f x) xs)"
  for f :: "'a \<Rightarrow> 'b::{linordered_idom}"
proof -
  have "sorted (map (\<lambda>x. - f x) (sort_key (\<lambda>x. - f x) xs))" by (rule sorted_sort_key)
  then show ?thesis by (simp add: descending_def sorted_map)
qed

lemma descending_hd: "descending f xs \<Longrightarrow> x \<in> set xs \<Longrightarrow> f x \<le> f (hd xs)"
  by (cases xs) (auto simp: descending_def)

lemma descending_map_filter:
  assumes "descending f xs"
    and "\<And>x y a b. g x = Some a \<Longrightarrow> g y = Some b \<Longrightarrow> f y \<le> f x \<Longrightarrow> h b \<le> h a"
  shows "descending h (List.map_filter g xs)"
  using assms(1) unfolding descending_def
proof (induction xs)
  case Nil then show ?case by simp
next
  case (Cons x xs)
  then show ?case
    by (auto simp: set_map_filter split: option.splits intro: assms(2))
qed

lemma ranking_facts:
  fixes ls rank
  defines "R \<equiv> sort_key (\<lambda>pc. - snd pc) (range_map rank (like_counts ls))"
  shows "set R = {(p, like_count ls p) |p. p \<in> like_ProductID ` set ls}"
    and "descending snd R"
    and "ls \<noteq> [] \<Longrightarrow> R \<noteq> [] \<and> snd (hd R) = max_like_count ls"
proof -
  show s: "set R = {(p, like_count ls p) |p. p \<in> like_ProductID ` set ls}"
    unfolding R_def range_map_def by (simp add: like_counts_entries)
  show d: "descending snd R"
    unfolding R_def by (rule descending_sort_key)
  assume ne: "ls \<noteq> []"
  then obtain l where "l \<in> set ls" by (cases ls) auto
  then have "(like_ProductID l, like_count ls (like_ProductID l)) \<in> set R" unfolding s by blast
  then have rne: "R \<noteq> []" by auto
  then have "hd R \<in> set R" by simp
  then obtain p where p: "hd R = (p, like_count ls p)" "p \<in> like_ProductID ` set ls"
    unfolding s by blast
  have "Max ((\<lambda>like. like_count ls (like_ProductID like)) ` set ls) = snd (hd R)"
  proof (rule Max_eqI)
    show "finite ((\<lambda>like. like_count ls (like_ProductID like)) ` set ls)" by simp
    show "snd (hd R) \<in> (\<lambda>like. like_count ls (like_ProductID like)) ` set ls"
      using p by auto
    fix y assume "y \<in> (\<lambda>like. like_count ls (like_ProductID like)) ` set ls"
    then obtain k where k: "k \<in> set ls" "y = like_count ls (like_ProductID k)" by auto
    then have "(like_ProductID k, y) \<in> set R" unfolding s by blast
    from descending_hd [OF d this] show "y \<le> snd (hd R)" by simp
  qed
  with ne rne show "R \<noteq> [] \<and> snd (hd R) = max_like_count ls"
    by (simp add: max_like_count_def)
qed

lemma getPopularProducts_Ok:
  assumes "GetAllUserLikes w = Inr ls" and "0 < limit"
  shows "\<exists>pcs. getPopularProducts w limit =
           Ok \<lparr>UserID = 0,
               Recommendations = List.map_filter (popular_item w (max_like_count ls)) pcs,
               Algorithm = ''popularity_based'', GeneratedAt = now_RFC3339 w\<rparr> \<and>
         int (length pcs) \<le> limit \<and> descending snd pcs \<and>
         set pcs \<subseteq> {(p, like_count ls p) |p. p \<in> like_ProductID ` set ls} \<and>
         (ls \<noteq> [] \<longrightarrow> pcs \<noteq> [] \<and> snd (hd pcs) = max_like_count ls)"
proof -
  define R where "R = sort_key (\<lambda>pc. - snd pc) (range_map (range_likeCounts w) (like_counts ls))"
  note rf = ranking_facts [where ls = ls and rank = "range_likeCounts w", folded R_def]
  obtain k where k: "limit_results limit R = Ok (take k R)" "int (length (take k R)) \<le> limit" "0 < k"
    using limit_results_cases [of limit R] assms(2) by auto
  have hd: "ls \<noteq> [] \<longrightarrow> take k R \<noteq> [] \<and> snd (hd (take k R)) = max_like_count ls"
    using rf(3) k(3) by auto
  have mc: "(if length (take k R) > 0 then snd (hd (take k R)) else 1) = max_like_count ls"
  proof (cases "ls = []")
    case True
    then have "R = []" using rf(1) by simp
    then show ?thesis using True by (simp add: max_like_count_def)
  next
    case False
    with rf(3) have "R \<noteq> []" "snd (hd R) = max_like_count ls" by simp_all
    then show ?thesis using k(3) by simp
  qed
  have "getPopularProducts w limit =
           Ok \<lparr>UserID = 0,
               Recommendations = List.map_filter (popular_item w (max_like_count ls)) (take k R),
               Algorithm = ''popularity_based'', GeneratedAt = now_RFC3339 w\<rparr>"
    unfolding getPopularProducts_def Let_def assms(1) R_def [symmetric] sum.case k(1) outcome.case mc ..
  moreover have "set (take k R) \<subseteq> {(p, like_count ls p) |p. p \<in> like_ProductID ` set ls}"
    using set_take_subset [of k R] rf(1) by simp
  ultimately show ?thesis
    using k(2) hd descending_take [OF rf(2), of k] by blast
qed

subsection \<open>Visiting orders\<close>

text \<open>
  The rankings lose no behaviour of the code: every order in which the entries of a map can
  be visited is the order of some ranking, and every descending arrangement of the entries
  is what the stable sort returns for some ranking.
\<close>

lemma position_Cons: "position (y # ys) k = (if k = y then 0 else 1 + position ys k)"
  by (simp add: position_def)

lemma position_nonneg: "0 \<le> position ks k"
  by (simp add: position_def)

lemma position_sorted_distinct:
  "distinct ks \<Longrightarrow> sorted (map (position ks) ks) \<and> distinct (map (position ks) ks)"
proof (induction ks)
  case Nil then show ?case by simp
next
  case (Cons y ys)
  have eq: "map (position (y # ys)) ys = map (\<lambda>i. 1 + i) (map (position ys) ys)"
    using Cons.prems by (auto simp: position_Cons)
  have ih: "sorted (map (position ys) ys)" "distinct (map (position ys) ys)"
    using Cons by simp_all
  have s: "sorted (map (\<lambda>i. 1 + i) (map (position ys) ys))"
    using ih(1) by (simp add: sorted_map sorted_wrt_map comp_def)
  have d: "distinct (map (\<lambda>i. 1 + i) (map (position ys) ys))"
    using ih(2) by (simp add: distinct_map inj_on_def)
  have pos: "\<forall>x \<in> set (map (\<lambda>i. 1 + i) (map (position ys) ys)). 0 < x"
    using position_nonneg by (auto simp: less_le add_nonneg_eq_0_iff intro: add_nonneg_nonneg)
  show ?case
    unfolding list.map eq using s d pos by (auto simp: position_Cons)
qed

lemma sort_key_any_order:
  fixes g :: "'a \<Rightarrow> int"
  assumes "distinct (map g xs)" and "set ys = set xs" and "distinct ys"
  shows "\<exists>rank :: int \<Rightarrow> int. sort_key (\<lambda>x. rank (g x)) xs = ys"
proof -
  let ?rank = "position (map g ys)"
  let ?f = "\<lambda>x. ?rank (g x)"
  have inj: "inj_on g (set xs)" and dx: "distinct xs"
    using assms(1) by (simp_all add: distinct_map)
  then have dgy: "distinct (map g ys)"
    using assms(2,3) by (simp add: distinct_map)
  from position_sorted_distinct [OF this]
  have sy: "sorted (map ?f ys)" and dy: "distinct (map ?f ys)"
    by (simp_all add: comp_def)
  from dy have injf: "inj_on ?f (set ys)" by (simp add: distinct_map)
  have "sort_key ?f xs = ys"
  proof (rule map_sorted_distinct_set_unique [where f = ?f])
    show "inj_on ?f (set (sort_key ?f xs) \<union> set ys)" using injf assms(2) by simp
    show "sorted (map ?f (sort_key ?f xs))" by (rule sorted_sort_key)
    show "distinct (map ?f (sort_key ?f xs))"
      using injf assms(2) dx by (simp add: distinct_map)
    show "sorted (map ?f ys)" by (rule sy)
    show "distinct (map ?f ys)" by (rule dy)
    show "set (sort_key ?f xs) = set ys" using assms(2) by simp
  qed
  then show ?thesis by (rule exI [of _ ?rank])
qed

lemma range_map_any_order:
  assumes "distinct (map fst m)" and "set entries = set m" and "distinct entries"
  shows "\<exists>rank. range_map rank m = entries"
  unfolding range_map_def using assms by (rule sort_key_any_order)

lemma every_descending_order:
  fixes g :: "'a \<Rightarrow> int" and f :: "'a \<Rightarrow> rat"
  assumes "distinct (map g xs)" and "set ys = set xs" and "distinct ys" and "descending f ys"
  shows "\<exists>rank :: int \<Rightarrow> int. sort_key (\<lambda>x. - f x) (sort_key (\<lambda>x. rank (g x)) xs) = ys"
proof -
  obtain rank :: "int \<Rightarrow> int" where "sort_key (\<lambda>x. rank (g x)) xs = ys"
    using sort_key_any_order [OF assms(1-3)] by blast
  moreover have "sorted (map (\<lambda>x. - f x) ys)"
    using assms(4) by (simp add: descending_def sorted_map)
  ultimately show ?thesis
    by (metis sort_key_id_if_sorted)
qed


subsection \<open>The aggregation passes\<close>

lemma clamp_limit_range: "0 < clamp_limit limit \<and> clamp_limit limit \<le> 50"
  by (simp add: clamp_limit_def)

lemma clamp_limit_default: "limit \<le> 0 \<or> limit > 50 \<Longrightarrow> clamp_limit limit = 10"
  by (simp add: clamp_limit_def)

lemma clamp_limit_idem: "clamp_limit (clamp_limit limit) = clamp_limit limit"
  by (simp add: clamp_limit_def)

lemma credit_missing: "cache_ok w st \<Longrightarrow> \<not> in_catalog w p \<Longrightarrow> credit w p x st = st"
  by (auto simp: credit_def cache_ok_def in_catalog_def split: option.splits sum.splits)

lemma credit_cache_ok: "cache_ok w st \<Longrightarrow> cache_ok w (credit w p x st)"
  by (auto simp: credit_def cache_ok_def split: option.splits sum.splits)

lemma credit_other: "p \<noteq> q \<Longrightarrow> map_of (productScores (credit w q x st)) p = map_of (productScores st) p"
  by (auto simp: credit_def update_conv' split: option.splits sum.splits)

lemma fold_preserves:
  assumes "\<And>x st. Q st \<Longrightarrow> Q (f x st)"
  shows "Q st \<Longrightarrow> Q (fold f xs st)"
  by (induction xs arbitrary: st) (auto intro: assms)

lemma purchase_pass_cache_ok:
  "cache_ok w st \<Longrightarrow> cache_ok w (purchase_pass w P sims ps st)"
  unfolding purchase_pass_def
  by (rule fold_preserves, rule fold_preserves) (auto intro: credit_cache_ok)

lemma like_pass_cache_ok:
  "cache_ok w st \<Longrightarrow> cache_ok w (like_pass w L P sims ls st)"
  unfolding like_pass_def
  by (rule fold_preserves, rule fold_preserves) (auto intro: credit_cache_ok)

lemma credit_excluded:
  "p \<in> S \<Longrightarrow> q \<notin> S \<Longrightarrow> map_of (productScores (credit w q x st)) p = map_of (productScores st) p"
  by (rule credit_other) auto

lemma purchase_pass_excluded:
  assumes "p \<in> P"
  shows "map_of (productScores (purchase_pass w P sims ps st)) p = map_of (productScores st) p"
  unfolding purchase_pass_def
  by (rule fold_preserves [where Q = "\<lambda>s. map_of (productScores s) p = map_of (productScores st) p"],
      rule fold_preserves) (use assms in \<open>auto simp: credit_excluded [where S = P]\<close>)

lemma like_pass_excluded:
  assumes "p \<in> L \<or> p \<in> P"
  shows "map_of (productScores (like_pass w L P sims ls st)) p = map_of (productScores st) p"
  unfolding like_pass_def
  by (rule fold_preserves [where Q = "\<lambda>s. map_of (productScores s) p = map_of (productScores st) p"],
      rule fold_preserves)
     (use assms in \<open>auto simp: credit_excluded [where S = P] credit_excluded [where S = L]\<close>)

lemma cache_ok_init: "cache_ok w \<lparr>productScores = [], productDetails = Map.empty\<rparr>"
  by (simp add: cache_ok_def)

lemma aggregate_cache_ok: "cache_ok w (aggregate w L P sims ps ls)"
  unfolding aggregate_def by (intro like_pass_cache_ok purchase_pass_cache_ok cache_ok_init)

lemma aggregate_purchased:
  "p \<in> P \<Longrightarrow> p \<notin> fst ` set (productScores (aggregate w L P sims ps ls))"
proof -
  assume p: "p \<in> P"
  have "map_of (productScores (aggregate w L P sims ps ls)) p = None"
    unfolding aggregate_def using p by (simp add: like_pass_excluded purchase_pass_excluded)
  then show ?thesis by (simp add: map_of_eq_None_iff)
qed

lemma fold_skip:
  assumes "\<And>x st. Q st \<Longrightarrow> Q (f x st)" and "\<And>x st. Q st \<Longrightarrow> \<not> keep x \<Longrightarrow> f x st = st"
  shows "Q st \<Longrightarrow> fold f (filter keep xs) st = fold f xs st"
  by (induction xs arbitrary: st) (auto simp: assms)

lemma fold_fold_skip:
  assumes inv: "\<And>y x st. Q st \<Longrightarrow> Q (f y x st)"
    and skip: "\<And>y x st. Q st \<Longrightarrow> \<not> keep x \<Longrightarrow> f y x st = st"
  shows "Q st \<Longrightarrow> fold (\<lambda>y. fold (f y) (filter keep xs)) ys st = fold (\<lambda>y. fold (f y) xs) ys st"
proof (induction ys arbitrary: st)
  case Nil then show ?case by simp
next
  case (Cons y ys)
  have eq: "fold (f y) (filter keep xs) st = fold (f y) xs st"
    using Cons.prems by (rule fold_skip [where Q = Q, rotated 2]) (auto simp: inv skip)
  have "Q (fold (f y) xs st)"
    using Cons.prems by (rule fold_preserves [rotated]) (rule inv)
  then show ?case using Cons.IH eq by simp
qed

lemma purchase_pass_skips_missing:
  assumes "cache_ok w st"
  shows "purchase_pass w P sims (filter (\<lambda>purchase. in_catalog w (purchase_ProductID purchase)) ps) st
         = purchase_pass w P sims ps st"
  unfolding purchase_pass_def using assms
  by (rule fold_fold_skip [where Q = "cache_ok w", rotated 2])
     (auto simp: credit_cache_ok credit_missing)

lemma like_pass_skips_missing:
  assumes "cache_ok w st"
  shows "like_pass w L P sims (filter (\<lambda>like. in_catalog w (like_ProductID like)) ls) st
         = like_pass w L P sims ls st"
  unfolding like_pass_def using assms
  by (rule fold_fold_skip [where Q = "cache_ok w", rotated 2])
     (auto simp: credit_cache_ok credit_missing)

lemma aggregate_skips_missing:
  "aggregate w L P sims (filter (\<lambda>purchase. in_catalog w (purchase_ProductID purchase)) ps)
       (filter (\<lambda>like. in_catalog w (like_ProductID like)) ls)
   = aggregate w L P sims ps ls"
  unfolding aggregate_def
  by (simp add: purchase_pass_skips_missing cache_ok_init like_pass_skips_missing purchase_pass_cache_ok)

lemma recommendation_of_Some:
  "recommendation_of details entry = Some r \<Longrightarrow>
     ProductID r = fst entry \<and> Score r = snd entry \<and> details (fst entry) \<noteq> None \<and>
     Reason r = ''Users with similar interests liked this''"
  by (auto simp: recommendation_of_def split: option.splits)

lemma candidates_member:
  assumes "r \<in> set (candidates w st)"
  shows "ProductID r \<in> fst ` set (productScores st) \<and> productDetails st (ProductID r) \<noteq> None"
proof -
  from assms obtain entry where e: "entry \<in> set (productScores st)"
      "recommendation_of (productDetails st) entry = Some r"
    by (auto simp: candidates_def set_map_filter range_map_def)
  from recommendation_of_Some [OF e(2)] e(1) show ?thesis by auto
qed

lemma collaborative_cases:
  assumes "0 < limit"
  shows "collaborative w u limit ls ps L P sims = getPopularProducts w limit \<or>
     (\<exists>recs. collaborative w u limit ls ps L P sims =
               Ok \<lparr>UserID = u, Recommendations = recs, Algorithm = ''collaborative_filtering'',
                   GeneratedAt = now_RFC3339 w\<rparr> \<and>
             recs \<noteq> [] \<and> limit_results limit (candidates w (aggregate w L P sims ps ls)) = Ok recs)"
proof -
  obtain recs where r: "limit_results limit (candidates w (aggregate w L P sims ps ls)) = Ok recs"
    using limit_results_total [of limit] assms by force
  show ?thesis
    using r unfolding collaborative_def Let_def candidates_def [symmetric]
    by (cases "recs = []") simp_all
qed

lemma GetSimilarUsers_10:
  assumes "GetAllUserLikes w = Inr ls" "GetAllUserViews w = Inr vs" "GetAllUserPurchases w = Inr ps"
  shows "\<exists>sims. GetSimilarUsers w u 10 = Ok sims"
proof -
  obtain ids where "similar_users (range_allUserIDs w) u 10 ls vs ps =
       limit_results 10 (sort_key (\<lambda>s. - SimilarityScore s) (List.map_filter (entry_for ls vs ps u) ids))"
    using similar_users_unfold [of ls vs ps u "range_allUserIDs w"] by blast
  then show ?thesis
    using assms limit_results_total [of 10] by (simp add: GetSimilarUsers_reads)
qed

lemma GetRecommendations_cases:
  assumes "GetAllUserLikes w = Inr ls" "GetAllUserViews w = Inr vs" "GetAllUserPurchases w = Inr ps"
  shows "GetRecommendations w u limit = getPopularProducts w (clamp_limit limit) \<or>
     (\<exists>sims recs. GetSimilarUsers w u 10 = Ok sims \<and> sims \<noteq> [] \<and>
        GetRecommendations w u limit =
               Ok \<lparr>UserID = u, Recommendations = recs, Algorithm = ''collaborative_filtering'',
                   GeneratedAt = now_RFC3339 w\<rparr> \<and>
        recs \<noteq> [] \<and>
        limit_results (clamp_limit limit)
          (candidates w (aggregate w (liked_by ls u) (purchased_by ps u) sims ps ls)) = Ok recs)"
proof -
  obtain sims where s: "GetSimilarUsers w u 10 = Ok sims"
    using GetSimilarUsers_10 [OF assms] by blast
  have pos: "0 < clamp_limit limit" using clamp_limit_range by simp
  show ?thesis
  proof (cases "liked_by ls u = {} \<and> viewed_by vs u = {} \<and> purchased_by ps u = {}")
    case True
    then show ?thesis
      by (simp add: GetRecommendations_def assms user_products_eq liked_by_def viewed_by_def purchased_by_def)
  next
    case False
    then have ne: "(products_of like_UserID like_ProductID u ls = {} \<and>
        products_of view_UserID view_ProductID u vs = {} \<and>
        products_of purchase_UserID purchase_ProductID u ps = {}) \<longleftrightarrow> False"
      by (simp add: liked_by_def viewed_by_def purchased_by_def)
    show ?thesis
    proof (cases "sims = []")
      case True
      then show ?thesis
        using s by (simp add: GetRecommendations_def assms user_products_eq Let_def ne)
    next
      case False
      have "GetRecommendations w u limit =
          collaborative w u (clamp_limit limit) ls ps (liked_by ls u) (purchased_by ps u) sims"
        using s False
        by (simp add: GetRecommendations_def assms user_products_eq Let_def ne)
           (simp add: liked_by_def purchased_by_def)
      with collaborative_cases [OF pos, of w u ls ps "liked_by ls u" "purchased_by ps u" sims] s False
      show ?thesis by auto
    qed
  qed
qed

lemma GetRecommendations_no_events:
  assumes "GetAllUserLikes w = Inr ls" "GetAllUserViews w = Inr vs" "GetAllUserPurchases w = Inr ps"
    and "liked_by ls u = {}" "viewed_by vs u = {}" "purchased_by ps u = {}"
  shows "GetRecommendations w u limit = getPopularProducts w (clamp_limit limit)"
  using assms
  by (simp add: GetRecommendations_def user_products_eq liked_by_def viewed_by_def purchased_by_def)


subsection \<open>The popularity fallback and the orchestrator\<close>

lemma GetRecommendations_Ok_reads:
  assumes "GetRecommendations w u limit = Ok resp"
  shows "\<exists>ls vs ps. GetAllUserLikes w = Inr ls \<and> GetAllUserViews w = Inr vs \<and> GetAllUserPurchases w = Inr ps"
  using assms by (auto simp: GetRecommendations_def Let_def split: sum.splits)

lemma getPopularProducts_tag:
  assumes "getPopularProducts w limit = Ok resp"
  shows "UserID resp = 0 \<and> Algorithm resp = ''popularity_based''"
  using assms by (auto simp: getPopularProducts_def Let_def split: sum.splits outcome.splits)

lemma popular_item_Some:
  assumes "popular_item w M pc = Some r"
  shows "ProductID r = fst pc \<and> Score r = fdiv (float64_of_int (snd pc)) (float64_of_int M) \<and>
         in_catalog w (fst pc) \<and>
         Reason r = ''Popular choice - '' @ fmt_d (snd pc) @ '' users liked this''"
  using assms by (auto simp: popular_item_def in_catalog_def split: sum.splits)

lemma popular_item_found:
  "in_catalog w (fst pc) \<Longrightarrow>
     \<exists>r. popular_item w M pc = Some r \<and> Score r = fdiv (float64_of_int (snd pc)) (float64_of_int M)"
  by (auto simp: popular_item_def in_catalog_def split: sum.splits)

lemma like_count_le_max_product: "like_count ls p \<le> max_like_count ls"
proof (cases "p \<in> like_ProductID ` set ls")
  case True then show ?thesis using like_count_le_max by auto
next
  case False
  then have "like_count ls p = 0" by (auto simp: like_count_def filter_empty_conv)
  then show ?thesis using max_like_count_positive [of ls] by simp
qed

lemma popular_list:
  assumes "GetAllUserLikes w = Inr ls" and "0 < limit"
  shows "\<exists>resp. getPopularProducts w limit = Ok resp \<and> Algorithm resp = ''popularity_based'' \<and>
     UserID resp = 0 \<and>
     int (length (Recommendations resp)) \<le> limit \<and>
     descending Score (Recommendations resp) \<and>
     (\<forall>r \<in> set (Recommendations resp).
         Score r = fdiv (float64_of_int (like_count ls (ProductID r))) (float64_of_int (max_like_count ls)) \<and>
         (max_like_count ls < 2 ^ 53 \<longrightarrow>
            Score r = to_float64 (of_int (like_count ls (ProductID r)) / of_int (max_like_count ls))) \<and>
         0 < Score r \<and> Score r \<le> 1 \<and> in_catalog w (ProductID r) \<and>
         Reason r = ''Popular choice - '' @ fmt_d (like_count ls (ProductID r)) @ '' users liked this'') \<and>
     ((\<forall>p. like_count ls p = max_like_count ls \<longrightarrow> in_catalog w p) \<and> Recommendations resp \<noteq> []
        \<longrightarrow> Score (hd (Recommendations resp)) = 1) \<and>
     (ls = [] \<longrightarrow> Recommendations resp = [])"
proof -
  let ?M = "max_like_count ls"
  obtain pcs where run: "getPopularProducts w limit =
           Ok \<lparr>UserID = 0, Recommendations = List.map_filter (popular_item w ?M) pcs,
               Algorithm = ''popularity_based'', GeneratedAt = now_RFC3339 w\<rparr>"
    and len: "int (length pcs) \<le> limit" and desc: "descending snd pcs"
    and sub: "set pcs \<subseteq> {(p, like_count ls p) |p. p \<in> like_ProductID ` set ls}"
    and top: "ls \<noteq> [] \<longrightarrow> pcs \<noteq> [] \<and> snd (hd pcs) = ?M"
    using getPopularProducts_Ok [OF assms] by blast
  let ?recs = "List.map_filter (popular_item w ?M) pcs"
  have Mpos: "0 < ?M" by (rule max_like_count_positive)
  then have "1 \<le> float64_of_int ?M" by (intro float64_of_int_ge_one) simp
  then have Fpos: "0 < float64_of_int ?M" by linarith
  have l: "int (length ?recs) \<le> limit"
    using length_map_filter [of "popular_item w ?M" pcs] len by linarith
  have d: "descending Score ?recs"
  proof (rule descending_map_filter [OF desc])
    fix x y a b
    assume "popular_item w ?M x = Some a" "popular_item w ?M y = Some b" "snd y \<le> snd x"
    then show "Score b \<le> Score a"
      using Fpos by (auto dest!: popular_item_Some intro!: fdiv_mono float64_of_int_mono)
  qed
  have items: "Score r = fdiv (float64_of_int (like_count ls (ProductID r))) (float64_of_int ?M) \<and>
         (?M < 2 ^ 53 \<longrightarrow> Score r = to_float64 (of_int (like_count ls (ProductID r)) / of_int ?M)) \<and>
         0 < Score r \<and> Score r \<le> 1 \<and> in_catalog w (ProductID r) \<and>
         Reason r = ''Popular choice - '' @ fmt_d (like_count ls (ProductID r)) @ '' users liked this''"
    if r: "r \<in> set ?recs" for r
  proof -
    from r obtain pc where pc: "pc \<in> set pcs" "popular_item w ?M pc = Some r"
      by (auto simp: set_map_filter)
    from pc(1) sub obtain p where p: "pc = (p, like_count ls p)" "p \<in> like_ProductID ` set ls" by blast
    note f = popular_item_Some [OF pc(2)]
    have c: "0 < like_count ls p" "like_count ls p \<le> ?M"
      using p(2) by (simp_all add: like_count_positive like_count_le_max_product)
    from f p(1) have id: "ProductID r = p"
      and sc: "Score r = fdiv (float64_of_int (like_count ls p)) (float64_of_int ?M)" by simp_all
    have "1 \<le> float64_of_int (like_count ls p)" using c(1) by (intro float64_of_int_ge_one) simp
    then have cpos: "0 < float64_of_int (like_count ls p)" by linarith
    have cle: "float64_of_int (like_count ls p) \<le> float64_of_int ?M"
      using c(2) by (rule float64_of_int_mono)
    have "0 < Score r" unfolding sc using cpos Fpos by (rule fdiv_positive)
    moreover have "Score r \<le> 1" unfolding sc using fdiv_range [OF _ cle Fpos] cpos by simp
    moreover have "Score r = to_float64 (of_int (like_count ls p) / of_int ?M)" if "?M < 2 ^ 53"
      unfolding sc using c that by (intro fdiv_of_int_exact) simp_all
    ultimately show ?thesis using f p(1) by simp
  qed
  have first: "Score (hd ?recs) = 1"
    if all: "\<forall>p. like_count ls p = ?M \<longrightarrow> in_catalog w p" and ne: "?recs \<noteq> []"
  proof -
    from ne have pne: "pcs \<noteq> []" by auto
    then obtain pc rest where pcs: "pcs = pc # rest" by (cases pcs) auto
    then have "pc \<in> set pcs" by simp
    with sub obtain p where p: "pc = (p, like_count ls p)" "p \<in> like_ProductID ` set ls" by blast
    then have "ls \<noteq> []" by auto
    with top pcs have "snd pc = ?M" by simp
    with p all have "in_catalog w (fst pc)" by simp
    then obtain r where r: "popular_item w ?M pc = Some r"
        "Score r = fdiv (float64_of_int (snd pc)) (float64_of_int ?M)"
      using popular_item_found by blast
    then have "hd ?recs = r" using pcs by simp
    with r \<open>snd pc = ?M\<close> Fpos show ?thesis by (simp add: fdiv_same)
  qed
  have empty: "ls = [] \<longrightarrow> ?recs = []"
    using sub by (cases pcs) auto
  let ?resp = "\<lparr>UserID = 0, Recommendations = ?recs,
               Algorithm = ''popularity_based'', GeneratedAt = now_RFC3339 w\<rparr>"
  have sel: "Recommendations ?resp = ?recs" "Algorithm ?resp = ''popularity_based''" "UserID ?resp = 0"
    by simp_all
  show ?thesis
    by (rule exI [of _ ?resp], unfold sel) (use run l d items first empty in blast)
qed

lemma collaborative_member:
  assumes "limit_results limit (candidates w st) = Ok recs" and "r \<in> set recs"
  shows "ProductID r \<in> fst ` set (productScores st) \<and> productDetails st (ProductID r) \<noteq> None"
  using assms limit_results_subset candidates_member by blast

lemma GetRecommendations_total:
  assumes "GetAllUserLikes w = Inr ls" "GetAllUserViews w = Inr vs" "GetAllUserPurchases w = Inr ps"
  shows "\<exists>resp. GetRecommendations w u limit = Ok resp"
proof -
  have pos: "0 < clamp_limit limit" using clamp_limit_range by simp
  from GetRecommendations_cases [OF assms, of u limit] popular_list [OF assms(1) pos]
  show ?thesis by auto
qed

lemma GetRecommendations_length:
  assumes "GetRecommendations w u limit = Ok resp"
  shows "int (length (Recommendations resp)) \<le> clamp_limit limit"
proof -
  obtain ls vs ps where reads: "GetAllUserLikes w = Inr ls" "GetAllUserViews w = Inr vs"
      "GetAllUserPurchases w = Inr ps"
    using GetRecommendations_Ok_reads [OF assms] by blast
  have pos: "0 < clamp_limit limit" using clamp_limit_range by simp
  from GetRecommendations_cases [OF reads, of u limit]
  show ?thesis
  proof
    assume "GetRecommendations w u limit = getPopularProducts w (clamp_limit limit)"
    with popular_list [OF reads(1) pos] assms show ?thesis by auto
  next
    assume "\<exists>sims recs. GetSimilarUsers w u 10 = Ok sims \<and> sims \<noteq> [] \<and>
        GetRecommendations w u limit =
               Ok \<lparr>UserID = u, Recommendations = recs, Algorithm = ''collaborative_filtering'',
                   GeneratedAt = now_RFC3339 w\<rparr> \<and>
        recs \<noteq> [] \<and>
        limit_results (clamp_limit limit)
          (candidates w (aggregate w (liked_by ls u) (purchased_by ps u) sims ps ls)) = Ok recs"
    then obtain sims recs where
        eq: "GetRecommendations w u limit =
               Ok \<lparr>UserID = u, Recommendations = recs, Algorithm = ''collaborative_filtering'',
                   GeneratedAt = now_RFC3339 w\<rparr>"
        and lim: "limit_results (clamp_limit limit)
          (candidates w (aggregate w (liked_by ls u) (purchased_by ps u) sims ps ls)) = Ok recs"
      by blast
    from eq assms have "Recommendations resp = recs" by auto
    with limit_results_length [OF lim] show ?thesis by simp
  qed
qed

lemma world_A_reads:
  "GetAllUserLikes world_A = Inr likes_A" "GetAllUserViews world_A = Inr views_A"
  "GetAllUserPurchases world_A = Inr purchases_A"
  by (simp_all add: world_A_def store_reads)

lemma world_A_recommendations:
  "GetRecommendations world_A 1 10 =
     Ok \<lparr>UserID = 1,
         Recommendations =
           [\<lparr>ProductID = 104, ProductName = ''item'', CategoryID = 0, Price = 10, Score = 2195504818343117/2251799813685248,
             Reason = ''Users with similar interests liked this''\<rparr>],
         Algorithm = ''collaborative_filtering'', GeneratedAt = ''2025-11-07T00:00:00Z''\<rparr>"
  by code_simp


subsection \<open>Folds with a single effective step\<close>

lemma fold_all_skipped: "(\<And>x st. x \<in> set xs \<Longrightarrow> f x st = st) \<Longrightarrow> fold f xs st = st"
  by (induction xs arbitrary: st) auto

lemma fold_single_effect:
  assumes "distinct xs" and "c \<in> set xs" and "\<And>x st. x \<in> set xs \<Longrightarrow> x \<noteq> c \<Longrightarrow> f x st = st"
  shows "fold f xs st = f c st"
  using assms
proof (induction xs arbitrary: st)
  case Nil then show ?case by simp
next
  case (Cons x xs)
  show ?case
  proof (cases "x = c")
    case True
    then have "c \<notin> set xs" using Cons.prems(1) by simp
    then have "fold f xs (f c st) = f c st"
      using Cons.prems(3) by (intro fold_all_skipped) auto
    with True show ?thesis by simp
  next
    case False
    then have "f x st = st" using Cons.prems(3) by simp
    moreover have "fold f xs st = f c st"
      using Cons.prems False by (intro Cons.IH) auto
    ultimately show ?thesis by simp
  qed
qed

lemma limit_results_fits: "int (length xs) \<le> limit \<Longrightarrow> limit_results limit xs = Ok xs"
  by (simp add: limit_results_def)

lemma singleton_list: "distinct xs \<Longrightarrow> set xs = {x} \<Longrightarrow> xs = [x]"
  by (cases xs) (auto simp: insert_eq_iff dest: subset_singletonD)


section \<open>The claims about GetSimilarUsers\<close>

text \<open>
  Claim C1. Every entry of the list returned by \<^verbatim>\<open>GetSimilarUsers\<close> belongs to a user
  other than the target, and its score is
  \<open>purchaseJaccard * 0.50 + likeJaccard * 0.35 + viewJaccard * 0.15\<close> as \<^verbatim>\<open>float64\<close>
  arithmetic evaluates it: each Jaccard index is the rounded quotient of \<open>|intersection|\<close> by
  \<open>|union|\<close>, and \<open>0\<close> for an empty union (the code's union size
  \<open>|target set| + |other set| - |intersection|\<close> is the size of the union, \<open>ratio_jaccard\<close>;
  for fewer than \<open>2\<^sup>5\<^sup>3\<close> products the quotient is the exact index rounded once,
  \<open>jaccard64_rounds_jaccard\<close>); the three products and the two sums are each rounded. Rounding is monotone and the rounded
  sum \<open>(0.5 + 0.35) + 0.15\<close> is exactly \<open>1\<close> (\<open>weights_sum_to_one\<close>), so the score lies in
  \<open>[0, 1]\<close>, and a user whose three interaction sets equal the target's, all three of them
  non-empty, scores exactly \<open>1\<close>. A type whose set is empty for both users contributes \<open>0\<close>
  (\<open>weighted_jaccard64_identical\<close>), which is why each of the three sets has to be non-empty.
\<close>

theorem GetSimilarUsers_score_weighted_jaccard:
  assumes "GetAllUserLikes w = Inr allLikes" and "GetAllUserViews w = Inr allViews"
    and "GetAllUserPurchases w = Inr allPurchases"
    and "GetSimilarUsers w userID limit = Ok sims" and "s \<in> set sims"
  shows "sim_UserID s \<noteq> userID \<and>
     SimilarityScore s =
       fadd (fadd (fmul (jaccard64 (purchased_by allPurchases userID)
                                   (purchased_by allPurchases (sim_UserID s))) purchaseWeight)
                  (fmul (jaccard64 (liked_by allLikes userID)
                                   (liked_by allLikes (sim_UserID s))) likeWeight))
            (fmul (jaccard64 (viewed_by allViews userID)
                             (viewed_by allViews (sim_UserID s))) viewWeight) \<and>
     0 \<le> SimilarityScore s \<and> SimilarityScore s \<le> 1 \<and>
     (purchased_by allPurchases (sim_UserID s) = purchased_by allPurchases userID \<and>
      liked_by allLikes (sim_UserID s) = liked_by allLikes userID \<and>
      viewed_by allViews (sim_UserID s) = viewed_by allViews userID \<and>
      purchased_by allPurchases userID \<noteq> {} \<and> liked_by allLikes userID \<noteq> {} \<and>
      viewed_by allViews userID \<noteq> {}
      \<longrightarrow> SimilarityScore s = 1) \<and>
     (\<forall>other.
        purchased_by allPurchases other = purchased_by allPurchases userID \<and>
        liked_by allLikes other = liked_by allLikes userID \<and>
        viewed_by allViews other = viewed_by allViews userID \<and>
        purchased_by allPurchases userID \<noteq> {} \<and> liked_by allLikes userID \<noteq> {} \<and>
        viewed_by allViews userID \<noteq> {}
        \<longrightarrow> weighted_jaccard64 allLikes allViews allPurchases userID other = 1)"
proof -
  have same: "weighted_jaccard64 allLikes allViews allPurchases userID b = 1"
    if "purchased_by allPurchases b = purchased_by allPurchases userID"
      "liked_by allLikes b = liked_by allLikes userID" "viewed_by allViews b = viewed_by allViews userID"
      "purchased_by allPurchases userID \<noteq> {}" "liked_by allLikes userID \<noteq> {}"
      "viewed_by allViews userID \<noteq> {}" for b
    using that by (rule weighted_jaccard64_identical_full)
  from assms have "similar_users (range_allUserIDs w) userID limit allLikes allViews allPurchases = Ok sims"
    by (simp add: GetSimilarUsers_reads)
  then obtain other where o: "other \<in> other_users allLikes allViews allPurchases userID"
    and e: "entry_for allLikes allViews allPurchases userID other = Some s"
    using similar_users_member assms(5) by blast
  from e have id: "sim_UserID s = other"
    and sc: "SimilarityScore s = weighted_jaccard64 allLikes allViews allPurchases userID other"
    by (auto simp: entry_for_eq split: if_splits)
  from o have ne: "other \<noteq> userID" by (simp add: other_users_eq)
  have "sim_UserID s \<noteq> userID \<and>
     SimilarityScore s =
       fadd (fadd (fmul (jaccard64 (purchased_by allPurchases userID)
                                   (purchased_by allPurchases (sim_UserID s))) purchaseWeight)
                  (fmul (jaccard64 (liked_by allLikes userID)
                                   (liked_by allLikes (sim_UserID s))) likeWeight))
            (fmul (jaccard64 (viewed_by allViews userID)
                             (viewed_by allViews (sim_UserID s))) viewWeight) \<and>
     0 \<le> SimilarityScore s \<and> SimilarityScore s \<le> 1"
    using ne weighted_jaccard64_range [of allLikes allViews allPurchases userID other]
    unfolding id sc by (simp add: weighted_jaccard64_def)
  moreover have score_one: "SimilarityScore s = 1"
    if "purchased_by allPurchases (sim_UserID s) = purchased_by allPurchases userID"
      "liked_by allLikes (sim_UserID s) = liked_by allLikes userID"
      "viewed_by allViews (sim_UserID s) = viewed_by allViews userID"
      "purchased_by allPurchases userID \<noteq> {}" "liked_by allLikes userID \<noteq> {}"
      "viewed_by allViews userID \<noteq> {}"
    using same [OF that] unfolding id sc .
  moreover have "\<forall>b.
        purchased_by allPurchases b = purchased_by allPurchases userID \<and>
        liked_by allLikes b = liked_by allLikes userID \<and>
        viewed_by allViews b = viewed_by allViews userID \<and>
        purchased_by allPurchases userID \<noteq> {} \<and> liked_by allLikes userID \<noteq> {} \<and>
        viewed_by allViews userID \<noteq> {}
        \<longrightarrow> weighted_jaccard64 allLikes allViews allPurchases userID b = 1"
  proof (intro allI impI)
    fix b
    assume h: "purchased_by allPurchases b = purchased_by allPurchases userID \<and>
        liked_by allLikes b = liked_by allLikes userID \<and>
        viewed_by allViews b = viewed_by allViews userID \<and>
        purchased_by allPurchases userID \<noteq> {} \<and> liked_by allLikes userID \<noteq> {} \<and>
        viewed_by allViews userID \<noteq> {}"
    show "weighted_jaccard64 allLikes allViews allPurchases userID b = 1"
      by (rule same) (use h in simp_all)
  qed
  moreover have "purchased_by allPurchases (sim_UserID s) = purchased_by allPurchases userID \<and>
      liked_by allLikes (sim_UserID s) = liked_by allLikes userID \<and>
      viewed_by allViews (sim_UserID s) = viewed_by allViews userID \<and>
      purchased_by allPurchases userID \<noteq> {} \<and> liked_by allLikes userID \<noteq> {} \<and>
      viewed_by allViews userID \<noteq> {}
      \<longrightarrow> SimilarityScore s = 1"
  proof
    assume h: "purchased_by allPurchases (sim_UserID s) = purchased_by allPurchases userID \<and>
      liked_by allLikes (sim_UserID s) = liked_by allLikes userID \<and>
      viewed_by allViews (sim_UserID s) = viewed_by allViews userID \<and>
      purchased_by allPurchases userID \<noteq> {} \<and> liked_by allLikes userID \<noteq> {} \<and>
      viewed_by allViews userID \<noteq> {}"
    show "SimilarityScore s = 1"
      by (rule score_one) (use h in simp_all)
  qed
  ultimately show ?thesis by (intro conjI) simp_all
qed

text \<open>On the first store user \<open>2\<close> has the target's three sets and scores \<open>1\<close>, and user \<open>3\<close>
  scores the \<^verbatim>\<open>float64\<close> value of \<open>(0.5 * 0.5 + 0 * 0.35) + 0.5 * 0.15\<close>. On the second store
  the like index is \<open>1/2\<close> and the view index \<open>1\<close>: the score is the \<^verbatim>\<open>float64\<close> value
  \<open>0.32499999999999996\<close>, just below \<open>13/40\<close>.\<close>

theorem GetSimilarUsers_score_weighted_jaccard_witness:
  "GetSimilarUsers world_A 1 10 =
     Ok [\<lparr>sim_UserID = 2, SimilarityScore = 1, CommonLikes = 1, CommonViews = 1\<rparr>,
         \<lparr>sim_UserID = 3, SimilarityScore = 5854679515581645/18014398509481984,
           CommonLikes = 0, CommonViews = 1\<rparr>] \<and>
   fadd (fadd (fmul (jaccard64 (purchased_by purchases_A 1) (purchased_by purchases_A 2)) purchaseWeight)
              (fmul (jaccard64 (liked_by likes_A 1) (liked_by likes_A 2)) likeWeight))
        (fmul (jaccard64 (viewed_by views_A 1) (viewed_by views_A 2)) viewWeight) = 1 \<and>
   purchased_by purchases_A 2 = purchased_by purchases_A 1 \<and> purchased_by purchases_A 1 \<noteq> {} \<and>
   liked_by likes_A 2 = liked_by likes_A 1 \<and> liked_by likes_A 1 \<noteq> {} \<and>
   viewed_by views_A 2 = viewed_by views_A 1 \<and> viewed_by views_A 1 \<noteq> {} \<and>
   GetSimilarUsers world_G 1 10 =
     Ok [\<lparr>sim_UserID = 2, SimilarityScore = 1463669878895411/4503599627370496,
          CommonLikes = 1, CommonViews = 1\<rparr>] \<and>
   fadd (fadd (fmul (jaccard64 (purchased_by [] 1) (purchased_by [] 2)) purchaseWeight)
              (fmul (jaccard64 (liked_by likes_G 1) (liked_by likes_G 2)) likeWeight))
        (fmul (jaccard64 (viewed_by views_G 1) (viewed_by views_G 2)) viewWeight)
     = 1463669878895411/4503599627370496 \<and>
   (1463669878895411/4503599627370496 :: rat) < 13/40"
proof -
  let ?two = "\<lparr>sim_UserID = 2, SimilarityScore = 1, CommonLikes = 1, CommonViews = 1\<rparr>"
  let ?g = "\<lparr>sim_UserID = 2, SimilarityScore = 1463669878895411/4503599627370496,
              CommonLikes = 1, CommonViews = 1\<rparr>"
  have run: "GetSimilarUsers world_A 1 10 =
     Ok [?two,
         \<lparr>sim_UserID = 3, SimilarityScore = 5854679515581645/18014398509481984,
           CommonLikes = 0, CommonViews = 1\<rparr>]"
    by code_simp
  have runG: "GetSimilarUsers world_G 1 10 = Ok [?g]"
    by code_simp
  have sets: "purchased_by purchases_A 2 = purchased_by purchases_A 1" "purchased_by purchases_A 1 \<noteq> {}"
    "liked_by likes_A 2 = liked_by likes_A 1" "liked_by likes_A 1 \<noteq> {}"
    "viewed_by views_A 2 = viewed_by views_A 1" "viewed_by views_A 1 \<noteq> {}"
    by (simp_all add: purchased_by_def liked_by_def viewed_by_def products_of_def
          purchases_A_def likes_A_def views_A_def purchase_event_def like_event_def view_event_def)
  have reads: "GetAllUserLikes world_A = Inr likes_A" "GetAllUserViews world_A = Inr views_A"
    "GetAllUserPurchases world_A = Inr purchases_A"
    by (simp_all add: world_A_def store_reads)
  have readsG: "GetAllUserLikes world_G = Inr likes_G" "GetAllUserViews world_G = Inr views_G"
    "GetAllUserPurchases world_G = Inr []"
    by (simp_all add: world_G_def store_reads)
  have below: "(1463669878895411/4503599627370496 :: rat) < 13/40" by simp
  have a: "fadd (fadd (fmul (jaccard64 (purchased_by purchases_A 1) (purchased_by purchases_A 2)) purchaseWeight)
              (fmul (jaccard64 (liked_by likes_A 1) (liked_by likes_A 2)) likeWeight))
        (fmul (jaccard64 (viewed_by views_A 1) (viewed_by views_A 2)) viewWeight) = 1"
    using GetSimilarUsers_score_weighted_jaccard [OF reads run, of ?two] by simp
  have g: "fadd (fadd (fmul (jaccard64 (purchased_by [] 1) (purchased_by [] 2)) purchaseWeight)
              (fmul (jaccard64 (liked_by likes_G 1) (liked_by likes_G 2)) likeWeight))
        (fmul (jaccard64 (viewed_by views_G 1) (viewed_by views_G 2)) viewWeight)
     = 1463669878895411/4503599627370496"
    using GetSimilarUsers_score_weighted_jaccard [OF readsG runG, of ?g] by simp
  show ?thesis
    by (intro conjI run runG sets a g below)
qed



text \<open>
  Claim C5. When users \<open>a\<close> and \<open>b\<close> have no purchased product, no liked product and no
  viewed product in common, their weighted-Jaccard similarity is \<open>0\<close>, in exact arithmetic
  and as the code computes it, however many interactions each has, and \<open>b\<close> is absent from
  any list \<^verbatim>\<open>GetSimilarUsers\<close> returns for \<open>a\<close>. When this holds for every other user, the call returns the empty list (for a
  limit that is not negative, the only limits for which the call returns a list).
\<close>

theorem GetSimilarUsers_no_shared_product:
  assumes "GetAllUserLikes w = Inr allLikes" and "GetAllUserViews w = Inr allViews"
    and "GetAllUserPurchases w = Inr allPurchases"
  shows "(\<forall>b. purchased_by allPurchases a \<inter> purchased_by allPurchases b = {} \<and>
              liked_by allLikes a \<inter> liked_by allLikes b = {} \<and>
              viewed_by allViews a \<inter> viewed_by allViews b = {} \<longrightarrow>
              weighted_jaccard allLikes allViews allPurchases a b = 0 \<and>
              weighted_jaccard64 allLikes allViews allPurchases a b = 0 \<and>
              (\<forall>limit sims. GetSimilarUsers w a limit = Ok sims \<longrightarrow> b \<notin> sim_UserID ` set sims)) \<and>
         ((\<forall>b. b \<noteq> a \<longrightarrow>
              purchased_by allPurchases a \<inter> purchased_by allPurchases b = {} \<and>
              liked_by allLikes a \<inter> liked_by allLikes b = {} \<and>
              viewed_by allViews a \<inter> viewed_by allViews b = {}) \<longrightarrow>
          (\<forall>limit \<ge> 0. GetSimilarUsers w a limit = Ok []))"
proof (intro conjI allI impI)
  fix b
  assume d: "purchased_by allPurchases a \<inter> purchased_by allPurchases b = {} \<and>
              liked_by allLikes a \<inter> liked_by allLikes b = {} \<and>
              viewed_by allViews a \<inter> viewed_by allViews b = {}"
  then show "weighted_jaccard allLikes allViews allPurchases a b = 0"
    by (simp add: weighted_jaccard_def jaccard_disjoint)
  from d show "weighted_jaccard64 allLikes allViews allPurchases a b = 0"
    by (rule weighted_jaccard64_disjoint)
  fix limit sims
  assume ok: "GetSimilarUsers w a limit = Ok sims"
  show "b \<notin> sim_UserID ` set sims"
  proof
    assume "b \<in> sim_UserID ` set sims"
    then obtain s where s: "s \<in> set sims" "sim_UserID s = b" by auto
    have "similar_users (range_allUserIDs w) a limit allLikes allViews allPurchases = Ok sims"
      using assms ok by (simp add: GetSimilarUsers_reads)
    then obtain other where "entry_for allLikes allViews allPurchases a other = Some s"
      using similar_users_member s(1) by blast
    with s(2) d show False
      by (auto simp: entry_for_eq split: if_splits)
  qed
next
  fix limit :: int
  assume d: "\<forall>b. b \<noteq> a \<longrightarrow>
              purchased_by allPurchases a \<inter> purchased_by allPurchases b = {} \<and>
              liked_by allLikes a \<inter> liked_by allLikes b = {} \<and>
              viewed_by allViews a \<inter> viewed_by allViews b = {}"
    and l: "0 \<le> limit"
  obtain ids where ids: "set ids = other_users allLikes allViews allPurchases a"
    and eq: "similar_users (range_allUserIDs w) a limit allLikes allViews allPurchases =
       limit_results limit (sort_key (\<lambda>s. - SimilarityScore s)
          (List.map_filter (entry_for allLikes allViews allPurchases a) ids))"
    using similar_users_unfold [of allLikes allViews allPurchases a "range_allUserIDs w"] by blast
  have "set (List.map_filter (entry_for allLikes allViews allPurchases a) ids) = {}"
    unfolding set_map_filter ids using d
    by (auto simp: entry_for_eq other_users_eq split: if_splits)
  then have "List.map_filter (entry_for allLikes allViews allPurchases a) ids = []"
    by simp
  then show "GetSimilarUsers w a limit = Ok []"
    using assms l eq by (simp add: GetSimilarUsers_reads limit_results_Nil)
qed

theorem GetSimilarUsers_no_shared_product_witness:
  "weighted_jaccard likes_C [] purchases_C 1 2 = 0 \<and> weighted_jaccard64 likes_C [] purchases_C 1 2 = 0 \<and>
   GetSimilarUsers world_C 1 10 = Ok []"
proof -
  have reads: "GetAllUserLikes world_C = Inr likes_C" "GetAllUserViews world_C = Inr []"
    "GetAllUserPurchases world_C = Inr purchases_C"
    by (simp_all add: world_C_def store_reads)
  have apart: "purchased_by purchases_C 1 \<inter> purchased_by purchases_C b = {} \<and>
      liked_by likes_C 1 \<inter> liked_by likes_C b = {} \<and> viewed_by [] 1 \<inter> viewed_by [] b = {}"
    if "b \<noteq> 1" for b
    using that
    by (simp add: purchased_by_def liked_by_def viewed_by_def products_of_def
          purchases_C_def likes_C_def purchase_event_def like_event_def)
  from GetSimilarUsers_no_shared_product [OF reads, of 1] apart
  show ?thesis by simp
qed

text \<open>
  Claim C10. \<^verbatim>\<open>GetSimilarUsers\<close> neither clamps nor defaults its limit. Whenever a
  qualifying similar user exists (the call with limit \<open>10\<close> returns a non-empty list), the
  call with limit \<open>0\<close> returns the empty list and the call with any negative limit panics
  in the slice expression; neither behaves like the call with limit \<open>10\<close>.
\<close>

theorem GetSimilarUsers_limit_unclamped:
  assumes "GetAllUserLikes w = Inr allLikes" and "GetAllUserViews w = Inr allViews"
    and "GetAllUserPurchases w = Inr allPurchases"
    and "GetSimilarUsers w userID 10 = Ok sims" and "sims \<noteq> []"
  shows "GetSimilarUsers w userID 0 = Ok [] \<and>
         (\<forall>limit < 0. GetSimilarUsers w userID limit = Panic) \<and>
         (\<forall>limit \<le> 0. GetSimilarUsers w userID limit \<noteq> GetSimilarUsers w userID 10)"
proof -
  obtain ids where eq: "\<And>limit. similar_users (range_allUserIDs w) userID limit allLikes allViews allPurchases =
       limit_results limit (sort_key (\<lambda>s. - SimilarityScore s)
          (List.map_filter (entry_for allLikes allViews allPurchases userID) ids))"
    using similar_users_unfold [of allLikes allViews allPurchases userID "range_allUserIDs w"]
    by blast
  have g: "GetSimilarUsers w userID limit =
       limit_results limit (sort_key (\<lambda>s. - SimilarityScore s)
          (List.map_filter (entry_for allLikes allViews allPurchases userID) ids))" for limit
    using assms(1-3) eq by (simp add: GetSimilarUsers_reads)
  have zero: "GetSimilarUsers w userID 0 = Ok []"
    unfolding g by (rule limit_results_zero)
  have neg: "GetSimilarUsers w userID limit = Panic" if "limit < 0" for limit
    unfolding g using that by (rule limit_results_negative)
  show ?thesis
  proof (intro conjI allI impI)
    show "GetSimilarUsers w userID 0 = Ok []" by (rule zero)
  next
    fix limit :: int assume "limit < 0"
    then show "GetSimilarUsers w userID limit = Panic" by (rule neg)
  next
    fix limit :: int assume "limit \<le> 0"
    then consider "limit = 0" | "limit < 0" by linarith
    then show "GetSimilarUsers w userID limit \<noteq> GetSimilarUsers w userID 10"
      using zero neg assms(4,5) by cases auto
  qed
qed

theorem GetSimilarUsers_limit_unclamped_witness:
  "GetSimilarUsers world_A 1 10 \<noteq> Ok [] \<and> GetSimilarUsers world_A 1 0 = Ok [] \<and>
   GetSimilarUsers world_A 1 (- 1) = Panic"
proof -
  have run: "GetSimilarUsers world_A 1 10 =
     Ok [\<lparr>sim_UserID = 2, SimilarityScore = 1, CommonLikes = 1, CommonViews = 1\<rparr>,
         \<lparr>sim_UserID = 3, SimilarityScore = 5854679515581645/18014398509481984, CommonLikes = 0, CommonViews = 1\<rparr>]"
    by code_simp
  have reads: "GetAllUserLikes world_A = Inr likes_A" "GetAllUserViews world_A = Inr views_A"
    "GetAllUserPurchases world_A = Inr purchases_A"
    by (simp_all add: world_A_def store_reads)
  from GetSimilarUsers_limit_unclamped [OF reads run]
  show ?thesis using run by simp
qed

section \<open>The claims about GetRecommendations\<close>

text \<open>
  Claim C3, as the code has it. For a user with no view, like or purchase event,
  \<^verbatim>\<open>GetRecommendations\<close> answers from the popularity fallback: the response is tagged
  \<open>popularity_based\<close>, its list has at most \<open>clamp_limit n\<close> items (\<open>n\<close> itself when
  \<open>0 < n \<le> 50\<close>, otherwise \<open>10\<close>) and is in descending order of score, each item's score is
  its like count divided by the largest like count of any product (the \<^verbatim>\<open>float64\<close>
  quotient of the two counts converted to \<^verbatim>\<open>float64\<close>, which for counts below \<open>2\<^sup>5\<^sup>3\<close> is
  the exact quotient rounded once), a value in \<open>(0, 1]\<close>, its reason spells out that like
  count, and with no likes at all the list is empty and no error is returned. The top item
  scores exactly \<open>1\<close> when the list is non-empty and the most-liked products are still in
  the catalog.
\<close>

theorem popularity_fallback_new_user:
  assumes "GetAllUserLikes w = Inr allLikes" and "GetAllUserViews w = Inr allViews"
    and "GetAllUserPurchases w = Inr allPurchases"
    and "liked_by allLikes u = {}" and "viewed_by allViews u = {}" and "purchased_by allPurchases u = {}"
  shows "\<exists>resp. GetRecommendations w u n = Ok resp \<and> Algorithm resp = ''popularity_based'' \<and>
     int (length (Recommendations resp)) \<le> clamp_limit n \<and>
     descending Score (Recommendations resp) \<and>
     (\<forall>r \<in> set (Recommendations resp).
         Score r = fdiv (float64_of_int (like_count allLikes (ProductID r)))
                        (float64_of_int (max_like_count allLikes)) \<and>
         (max_like_count allLikes < 2 ^ 53 \<longrightarrow>
            Score r = to_float64 (of_int (like_count allLikes (ProductID r)) /
                                  of_int (max_like_count allLikes))) \<and>
         0 < Score r \<and> Score r \<le> 1 \<and>
         Reason r = ''Popular choice - '' @ fmt_d (like_count allLikes (ProductID r)) @ '' users liked this'') \<and>
     ((\<forall>p. like_count allLikes p = max_like_count allLikes \<longrightarrow> in_catalog w p) \<and>
      Recommendations resp \<noteq> [] \<longrightarrow> Score (hd (Recommendations resp)) = 1) \<and>
     (allLikes = [] \<longrightarrow> Recommendations resp = [])"
proof -
  have pos: "0 < clamp_limit n" using clamp_limit_range by simp
  have "GetRecommendations w u n = getPopularProducts w (clamp_limit n)"
    using assms by (rule GetRecommendations_no_events)
  with popular_list [OF assms(1) pos] show ?thesis by auto
qed


theorem popularity_fallback_new_user_witness:
  "liked_by likes_D 9 = {} \<and> viewed_by [] 9 = {} \<and> purchased_by [] 9 = {} \<and>
   in_catalog world_F 1 \<and>
   GetRecommendations world_F 9 0 =
     Ok \<lparr>UserID = 0,
         Recommendations =
           [\<lparr>ProductID = 1, ProductName = ''item'', CategoryID = 0, Price = 10, Score = 1,
             Reason = ''Popular choice - 2 users liked this''\<rparr>,
            \<lparr>ProductID = 2, ProductName = ''item'', CategoryID = 0, Price = 10, Score = 1/2,
             Reason = ''Popular choice - 1 users liked this''\<rparr>],
         Algorithm = ''popularity_based'', GeneratedAt = ''2025-11-07T00:00:00Z''\<rparr> \<and>
   clamp_limit 0 = 10 \<and> like_count likes_D 1 = 2 \<and> max_like_count likes_D = 2"
proof -
  have reads: "GetAllUserLikes world_F = Inr likes_D" "GetAllUserViews world_F = Inr []"
    "GetAllUserPurchases world_F = Inr []"
    by (simp_all add: world_F_def store_reads)
  have none: "liked_by likes_D 9 = {}" "viewed_by [] 9 = {}" "purchased_by [] 9 = {}"
    by (simp_all add: liked_by_def viewed_by_def purchased_by_def products_of_def likes_D_def like_event_def)
  have run: "GetRecommendations world_F 9 0 =
     Ok \<lparr>UserID = 0,
         Recommendations =
           [\<lparr>ProductID = 1, ProductName = ''item'', CategoryID = 0, Price = 10, Score = 1,
             Reason = ''Popular choice - 2 users liked this''\<rparr>,
            \<lparr>ProductID = 2, ProductName = ''item'', CategoryID = 0, Price = 10, Score = 1/2,
             Reason = ''Popular choice - 1 users liked this''\<rparr>],
         Algorithm = ''popularity_based'', GeneratedAt = ''2025-11-07T00:00:00Z''\<rparr>"
    by code_simp
  have counts: "clamp_limit 0 = 10" "like_count likes_D 1 = 2" "max_like_count likes_D = 2"
    by code_simp+
  have cat: "in_catalog world_F p" if "like_count likes_D p = max_like_count likes_D" for p
  proof -
    have "like_count likes_D p = 2" using that counts by simp
    then have "p = 1"
      by (auto simp: like_count_def likes_D_def like_event_def split: if_splits)
    then show ?thesis by (simp add: in_catalog_def world_F_def store_def)
  qed
  have "in_catalog world_F 1" using cat counts by simp
  with popularity_fallback_new_user [OF reads none, of 0] run none counts cat
  show ?thesis by blast
qed


text \<open>
  Claim C3 as stated fails. User \<open>9\<close> has no events; product \<open>1\<close> has two likes and has
  been deleted from the catalog, product \<open>2\<close> has one like. Called with \<open>n = 0\<close>, the code
  returns one item, more than \<open>n\<close>, and this top item scores \<open>1/2\<close>, not \<open>1\<close>.
\<close>

theorem popularity_top_score_counterexample:
  "liked_by likes_D 9 = {} \<and> viewed_by [] 9 = {} \<and> purchased_by [] 9 = {} \<and>
   GetRecommendations world_D 9 0 =
     Ok \<lparr>UserID = 0,
         Recommendations =
           [\<lparr>ProductID = 2, ProductName = ''item'', CategoryID = 0, Price = 10, Score = 1/2,
             Reason = ''Popular choice - 1 users liked this''\<rparr>],
         Algorithm = ''popularity_based'', GeneratedAt = ''2025-11-07T00:00:00Z''\<rparr> \<and>
   \<not> (1::int) \<le> 0 \<and> (1/2 :: rat) \<noteq> 1"
  by code_simp


text \<open>
  Claim C6. A product the target user has purchased never appears in the
  collaborative-filtering output of \<^verbatim>\<open>GetRecommendations\<close>, however many neighbours
  bought or liked it: the purchase pass leaves its score entry untouched, and the like pass
  leaves untouched the entry of every product the target has liked or purchased.
\<close>

theorem purchased_products_never_recommended:
  assumes "GetAllUserLikes w = Inr allLikes" and "GetAllUserViews w = Inr allViews"
    and "GetAllUserPurchases w = Inr allPurchases"
    and "GetRecommendations w userID limit = Ok resp"
    and "Algorithm resp = ''collaborative_filtering''"
    and "p \<in> purchased_by allPurchases userID"
  shows "p \<notin> ProductID ` set (Recommendations resp) \<and>
     (\<forall>sims st. map_of (productScores (purchase_pass w (purchased_by allPurchases userID) sims allPurchases st)) p
                  = map_of (productScores st) p) \<and>
     (\<forall>q sims st. q \<in> liked_by allLikes userID \<or> q \<in> purchased_by allPurchases userID \<longrightarrow>
         map_of (productScores (like_pass w (liked_by allLikes userID) (purchased_by allPurchases userID)
                                  sims allLikes st)) q
           = map_of (productScores st) q)"
proof (intro conjI allI impI)
  show "p \<notin> ProductID ` set (Recommendations resp)"
  proof
    assume "p \<in> ProductID ` set (Recommendations resp)"
    then obtain r where r: "r \<in> set (Recommendations resp)" "ProductID r = p" by auto
    from GetRecommendations_cases [OF assms(1-3), of userID limit]
    show False
    proof
      assume "GetRecommendations w userID limit = getPopularProducts w (clamp_limit limit)"
      with assms(4) have "Algorithm resp = ''popularity_based''"
        using getPopularProducts_tag by metis
      with assms(5) show False by simp
    next
      assume "\<exists>sims recs. GetSimilarUsers w userID 10 = Ok sims \<and> sims \<noteq> [] \<and>
        GetRecommendations w userID limit =
               Ok \<lparr>UserID = userID, Recommendations = recs, Algorithm = ''collaborative_filtering'',
                   GeneratedAt = now_RFC3339 w\<rparr> \<and>
        recs \<noteq> [] \<and>
        limit_results (clamp_limit limit)
          (candidates w (aggregate w (liked_by allLikes userID) (purchased_by allPurchases userID)
                           sims allPurchases allLikes)) = Ok recs"
      then obtain sims recs where
        eq: "GetRecommendations w userID limit =
               Ok \<lparr>UserID = userID, Recommendations = recs, Algorithm = ''collaborative_filtering'',
                   GeneratedAt = now_RFC3339 w\<rparr>"
        and lim: "limit_results (clamp_limit limit)
          (candidates w (aggregate w (liked_by allLikes userID) (purchased_by allPurchases userID)
                           sims allPurchases allLikes)) = Ok recs"
        by blast
      from eq assms(4) have "Recommendations resp = recs" by auto
      with r collaborative_member [OF lim, of r]
      have "p \<in> fst ` set (productScores (aggregate w (liked_by allLikes userID)
                 (purchased_by allPurchases userID) sims allPurchases allLikes))"
        by simp
      with aggregate_purchased [OF assms(6)] show False by blast
    qed
  qed
next
  fix sims st
  show "map_of (productScores (purchase_pass w (purchased_by allPurchases userID) sims allPurchases st)) p
          = map_of (productScores st) p"
    using assms(6) by (rule purchase_pass_excluded)
next
  fix q sims st
  assume "q \<in> liked_by allLikes userID \<or> q \<in> purchased_by allPurchases userID"
  then show "map_of (productScores (like_pass w (liked_by allLikes userID) (purchased_by allPurchases userID)
                                  sims allLikes st)) q = map_of (productScores st) q"
    by (rule like_pass_excluded)
qed


theorem purchased_products_never_recommended_witness:
  "101 \<in> purchased_by purchases_A 1 \<and>
   101 \<in> purchased_by purchases_A 2 \<and> 101 \<in> purchased_by purchases_A 3 \<and>
   GetRecommendations world_A 1 10 =
     Ok \<lparr>UserID = 1,
         Recommendations =
           [\<lparr>ProductID = 104, ProductName = ''item'', CategoryID = 0, Price = 10, Score = 2195504818343117/2251799813685248,
             Reason = ''Users with similar interests liked this''\<rparr>],
         Algorithm = ''collaborative_filtering'', GeneratedAt = ''2025-11-07T00:00:00Z''\<rparr> \<and>
   101 \<notin> ProductID ` set [\<lparr>ProductID = 104, ProductName = ''item'', CategoryID = 0, Price = 10, Score = 2195504818343117/2251799813685248,
             Reason = ''Users with similar interests liked this''\<rparr>] \<and>
   102 \<in> liked_by likes_A 1"
proof -
  have mem: "101 \<in> purchased_by purchases_A 1" "101 \<in> purchased_by purchases_A 2"
    "101 \<in> purchased_by purchases_A 3" "102 \<in> liked_by likes_A 1"
    by (simp_all add: purchased_by_def liked_by_def products_of_def purchases_A_def likes_A_def
          purchase_event_def like_event_def)
  from purchased_products_never_recommended [OF world_A_reads world_A_recommendations _ mem(1)] mem world_A_recommendations
  show ?thesis by simp
qed


text \<open>
  Claim C7. For every user id and every integer limit, the list returned by
  \<^verbatim>\<open>GetRecommendations\<close> has at most \<open>clamp_limit limit\<close> items; a limit that is \<open>\<le> 0\<close> or
  \<open>> 50\<close> is replaced by \<open>10\<close>, so the call behaves as the call with limit \<open>10\<close>, and it
  is not rejected: whenever the three reads of the store succeed the call returns a response.
\<close>

theorem GetRecommendations_limit_clamped:
  "(\<forall>resp. GetRecommendations w userID limit = Ok resp \<longrightarrow>
        int (length (Recommendations resp)) \<le> clamp_limit limit) \<and>
   clamp_limit limit = (if limit \<le> 0 \<or> limit > 50 then 10 else limit) \<and>
   (limit \<le> 0 \<or> limit > 50 \<longrightarrow> GetRecommendations w userID limit = GetRecommendations w userID 10) \<and>
   ((\<exists>allLikes. GetAllUserLikes w = Inr allLikes) \<and> (\<exists>allViews. GetAllUserViews w = Inr allViews) \<and>
    (\<exists>allPurchases. GetAllUserPurchases w = Inr allPurchases) \<longrightarrow>
      (\<exists>resp. GetRecommendations w userID limit = Ok resp))"
proof (intro conjI allI impI)
  fix resp assume "GetRecommendations w userID limit = Ok resp"
  then show "int (length (Recommendations resp)) \<le> clamp_limit limit" by (rule GetRecommendations_length)
next
  show "clamp_limit limit = (if limit \<le> 0 \<or> limit > 50 then 10 else limit)" by (simp add: clamp_limit_def)
next
  assume "limit \<le> 0 \<or> limit > 50"
  then have "clamp_limit limit = clamp_limit 10" by (auto simp: clamp_limit_def)
  then show "GetRecommendations w userID limit = GetRecommendations w userID 10"
    by (simp add: GetRecommendations_def)
next
  assume "(\<exists>allLikes. GetAllUserLikes w = Inr allLikes) \<and> (\<exists>allViews. GetAllUserViews w = Inr allViews) \<and>
    (\<exists>allPurchases. GetAllUserPurchases w = Inr allPurchases)"
  then show "\<exists>resp. GetRecommendations w userID limit = Ok resp"
    using GetRecommendations_total by blast
qed


theorem GetRecommendations_limit_clamped_witness:
  "GetRecommendations world_F 9 1 =
     Ok \<lparr>UserID = 0,
         Recommendations =
           [\<lparr>ProductID = 1, ProductName = ''item'', CategoryID = 0, Price = 10, Score = 1,
             Reason = ''Popular choice - 2 users liked this''\<rparr>],
         Algorithm = ''popularity_based'', GeneratedAt = ''2025-11-07T00:00:00Z''\<rparr> \<and>
   clamp_limit 1 = 1 \<and> clamp_limit 0 = 10 \<and> clamp_limit 51 = 10 \<and>
   GetRecommendations world_F 9 0 = GetRecommendations world_F 9 10 \<and>
   GetRecommendations world_F 9 51 = GetRecommendations world_F 9 10 \<and>
   (\<exists>resp. GetRecommendations world_F 9 (- 7) = Ok resp \<and> int (length (Recommendations resp)) \<le> 10)"
proof -
  have run: "GetRecommendations world_F 9 1 =
     Ok \<lparr>UserID = 0,
         Recommendations =
           [\<lparr>ProductID = 1, ProductName = ''item'', CategoryID = 0, Price = 10, Score = 1,
             Reason = ''Popular choice - 2 users liked this''\<rparr>],
         Algorithm = ''popularity_based'', GeneratedAt = ''2025-11-07T00:00:00Z''\<rparr>"
    by code_simp
  have reads: "\<exists>allLikes. GetAllUserLikes world_F = Inr allLikes"
    "\<exists>allViews. GetAllUserViews world_F = Inr allViews"
    "\<exists>allPurchases. GetAllUserPurchases world_F = Inr allPurchases"
    by (simp_all add: world_F_def store_reads)
  have c: "clamp_limit 1 = 1" "clamp_limit 0 = 10" "clamp_limit 51 = 10" "clamp_limit (- 7) = 10"
    by (simp_all add: clamp_limit_def)
  note neg = GetRecommendations_limit_clamped [of world_F 9 "- 7", unfolded c]
  from neg reads obtain resp where r: "GetRecommendations world_F 9 (- 7) = Ok resp" by blast
  with neg have "int (length (Recommendations resp)) \<le> 10" by blast
  with r have "\<exists>resp. GetRecommendations world_F 9 (- 7) = Ok resp \<and> int (length (Recommendations resp)) \<le> 10"
    by blast
  moreover have "GetRecommendations world_F 9 0 = GetRecommendations world_F 9 10"
    "GetRecommendations world_F 9 51 = GetRecommendations world_F 9 10"
    using GetRecommendations_limit_clamped [of world_F 9 0] GetRecommendations_limit_clamped [of world_F 9 51] by simp_all
  ultimately show ?thesis using run c by blast
qed


text \<open>
  Claim C8. A failing catalog lookup never makes \<^verbatim>\<open>GetRecommendations\<close> fail: when the
  three reads of the store succeed the call returns a response, no product that the catalog
  does not have appears in it, and the aggregation over all purchase and like events equals
  the aggregation over the events whose product the catalog has, so an event on a missing
  product changes no score and no cached product.
\<close>

theorem missing_product_skipped:
  assumes "GetAllUserLikes w = Inr allLikes" and "GetAllUserViews w = Inr allViews"
    and "GetAllUserPurchases w = Inr allPurchases"
  shows "(\<exists>resp. GetRecommendations w userID limit = Ok resp \<and>
            (\<forall>p. \<not> in_catalog w p \<longrightarrow> p \<notin> ProductID ` set (Recommendations resp))) \<and>
     (\<forall>L P sims.
        aggregate w L P sims (filter (\<lambda>purchase. in_catalog w (purchase_ProductID purchase)) allPurchases)
                            (filter (\<lambda>like. in_catalog w (like_ProductID like)) allLikes)
        = aggregate w L P sims allPurchases allLikes)"
proof (intro conjI allI)
  obtain resp where ok: "GetRecommendations w userID limit = Ok resp"
    using GetRecommendations_total [OF assms] by blast
  have pos: "0 < clamp_limit limit" using clamp_limit_range by simp
  have "in_catalog w (ProductID r)" if r: "r \<in> set (Recommendations resp)" for r
    using GetRecommendations_cases [OF assms, of userID limit]
  proof
    assume "GetRecommendations w userID limit = getPopularProducts w (clamp_limit limit)"
    with popular_list [OF assms(1) pos] ok r show ?thesis by auto
  next
    assume "\<exists>sims recs. GetSimilarUsers w userID 10 = Ok sims \<and> sims \<noteq> [] \<and>
        GetRecommendations w userID limit =
               Ok \<lparr>UserID = userID, Recommendations = recs, Algorithm = ''collaborative_filtering'',
                   GeneratedAt = now_RFC3339 w\<rparr> \<and>
        recs \<noteq> [] \<and>
        limit_results (clamp_limit limit)
          (candidates w (aggregate w (liked_by allLikes userID) (purchased_by allPurchases userID)
                           sims allPurchases allLikes)) = Ok recs"
    then obtain sims recs where
        eq: "GetRecommendations w userID limit =
               Ok \<lparr>UserID = userID, Recommendations = recs, Algorithm = ''collaborative_filtering'',
                   GeneratedAt = now_RFC3339 w\<rparr>"
        and lim: "limit_results (clamp_limit limit)
          (candidates w (aggregate w (liked_by allLikes userID) (purchased_by allPurchases userID)
                           sims allPurchases allLikes)) = Ok recs"
      by blast
    let ?st = "aggregate w (liked_by allLikes userID) (purchased_by allPurchases userID) sims allPurchases allLikes"
    from eq ok have "Recommendations resp = recs" by auto
    with r collaborative_member [OF lim, of r] have "productDetails ?st (ProductID r) \<noteq> None" by simp
    then obtain product where "productDetails ?st (ProductID r) = Some product" by auto
    with aggregate_cache_ok [of w "liked_by allLikes userID" "purchased_by allPurchases userID" sims allPurchases allLikes]
    have "GetByID w (ProductID r) = Inr product" by (simp add: cache_ok_def)
    then show ?thesis by (simp add: in_catalog_def)
  qed
  with ok show "\<exists>resp. GetRecommendations w userID limit = Ok resp \<and>
            (\<forall>p. \<not> in_catalog w p \<longrightarrow> p \<notin> ProductID ` set (Recommendations resp))"
    by blast
next
  fix L P sims
  show "aggregate w L P sims (filter (\<lambda>purchase. in_catalog w (purchase_ProductID purchase)) allPurchases)
                            (filter (\<lambda>like. in_catalog w (like_ProductID like)) allLikes)
        = aggregate w L P sims allPurchases allLikes"
    by (rule aggregate_skips_missing)
qed


theorem missing_product_skipped_witness:
  "\<not> in_catalog world_E 103 \<and> like_event 2 103 \<in> set likes_E \<and>
   GetRecommendations world_E 1 10 =
     Ok \<lparr>UserID = 1,
         Recommendations =
           [\<lparr>ProductID = 102, ProductName = ''item'', CategoryID = 0, Price = 10, Score = 3/4,
             Reason = ''Users with similar interests liked this''\<rparr>],
         Algorithm = ''collaborative_filtering'', GeneratedAt = ''2025-11-07T00:00:00Z''\<rparr> \<and>
   filter (\<lambda>like. in_catalog world_E (like_ProductID like)) likes_E = [] \<and>
   aggregate world_E {} {101} [\<lparr>sim_UserID = 2, SimilarityScore = 1/4, CommonLikes = 0, CommonViews = 0\<rparr>]
       purchases_E []
   = aggregate world_E {} {101} [\<lparr>sim_UserID = 2, SimilarityScore = 1/4, CommonLikes = 0, CommonViews = 0\<rparr>]
       purchases_E likes_E"
proof -
  have reads: "GetAllUserLikes world_E = Inr likes_E" "GetAllUserViews world_E = Inr []"
    "GetAllUserPurchases world_E = Inr purchases_E"
    by (simp_all add: world_E_def store_reads)
  have gone: "\<not> in_catalog world_E 103" "like_event 2 103 \<in> set likes_E"
    "filter (\<lambda>like. in_catalog world_E (like_ProductID like)) likes_E = []"
    "filter (\<lambda>purchase. in_catalog world_E (purchase_ProductID purchase)) purchases_E = purchases_E"
    by (simp_all add: in_catalog_def world_E_def store_def likes_E_def like_event_def
          purchases_E_def purchase_event_def)
  have run: "GetRecommendations world_E 1 10 =
     Ok \<lparr>UserID = 1,
         Recommendations =
           [\<lparr>ProductID = 102, ProductName = ''item'', CategoryID = 0, Price = 10, Score = 3/4,
             Reason = ''Users with similar interests liked this''\<rparr>],
         Algorithm = ''collaborative_filtering'', GeneratedAt = ''2025-11-07T00:00:00Z''\<rparr>"
    by code_simp
  from missing_product_skipped [OF reads, of 1 10] gone run
  show ?thesis by simp
qed


text \<open>
  Claim C9. A response of \<^verbatim>\<open>GetRecommendations\<close> either is the response of
  \<^verbatim>\<open>getPopularProducts\<close>, tagged \<open>popularity_based\<close> with user id \<open>0\<close>, or is tagged
  \<open>collaborative_filtering\<close> and carries the requested user id.
\<close>

theorem response_user_id:
  assumes "GetRecommendations w userID limit = Ok resp"
  shows "(getPopularProducts w (clamp_limit limit) = Ok resp \<and> Algorithm resp = ''popularity_based'' \<and>
          UserID resp = 0) \<or>
         (getPopularProducts w (clamp_limit limit) \<noteq> Ok resp \<and> Algorithm resp = ''collaborative_filtering'' \<and>
          UserID resp = userID)"
proof -
  obtain ls vs ps where reads: "GetAllUserLikes w = Inr ls" "GetAllUserViews w = Inr vs"
      "GetAllUserPurchases w = Inr ps"
    using GetRecommendations_Ok_reads [OF assms] by blast
  from GetRecommendations_cases [OF reads, of userID limit]
  show ?thesis
  proof
    assume "GetRecommendations w userID limit = getPopularProducts w (clamp_limit limit)"
    with assms have "getPopularProducts w (clamp_limit limit) = Ok resp" by simp
    with getPopularProducts_tag [OF this] show ?thesis by simp
  next
    assume "\<exists>sims recs. GetSimilarUsers w userID 10 = Ok sims \<and> sims \<noteq> [] \<and>
        GetRecommendations w userID limit =
               Ok \<lparr>UserID = userID, Recommendations = recs, Algorithm = ''collaborative_filtering'',
                   GeneratedAt = now_RFC3339 w\<rparr> \<and>
        recs \<noteq> [] \<and>
        limit_results (clamp_limit limit)
          (candidates w (aggregate w (liked_by ls userID) (purchased_by ps userID) sims ps ls)) = Ok recs"
    with assms have t: "Algorithm resp = ''collaborative_filtering''" "UserID resp = userID" by auto
    have "getPopularProducts w (clamp_limit limit) \<noteq> Ok resp"
      using getPopularProducts_tag [of w "clamp_limit limit" resp] t(1) by auto
    with t show ?thesis by simp
  qed
qed


theorem response_user_id_witness:
  "GetRecommendations world_A 1 10 =
     Ok \<lparr>UserID = 1,
         Recommendations =
           [\<lparr>ProductID = 104, ProductName = ''item'', CategoryID = 0, Price = 10, Score = 2195504818343117/2251799813685248,
             Reason = ''Users with similar interests liked this''\<rparr>],
         Algorithm = ''collaborative_filtering'', GeneratedAt = ''2025-11-07T00:00:00Z''\<rparr> \<and>
   GetRecommendations world_A 9 10 =
     Ok \<lparr>UserID = 0,
         Recommendations =
           [\<lparr>ProductID = 102, ProductName = ''item'', CategoryID = 0, Price = 10, Score = 1,
             Reason = ''Popular choice - 2 users liked this''\<rparr>],
         Algorithm = ''popularity_based'', GeneratedAt = ''2025-11-07T00:00:00Z''\<rparr> \<and>
   getPopularProducts world_A (clamp_limit 10) = GetRecommendations world_A 9 10"
proof -
  have run9: "GetRecommendations world_A 9 10 =
     Ok \<lparr>UserID = 0,
         Recommendations =
           [\<lparr>ProductID = 102, ProductName = ''item'', CategoryID = 0, Price = 10, Score = 1,
             Reason = ''Popular choice - 2 users liked this''\<rparr>],
         Algorithm = ''popularity_based'', GeneratedAt = ''2025-11-07T00:00:00Z''\<rparr>"
    by code_simp
  from response_user_id [OF world_A_recommendations] response_user_id [OF run9] world_A_recommendations run9
  show ?thesis by simp
qed

section \<open>The scenario of a shared purchase\<close>

text \<open>
  Claim C2, as the code has it. The target's only interaction is one purchase of \<open>P1\<close>; the
  only other user purchased \<open>P1\<close> and \<open>P2\<close>, once each, and has no other interaction; both
  products are in the catalog. The purchase sets are \<open>{P1}\<close> and \<open>{P1, P2}\<close>, so the purchase
  similarity is \<open>1/2\<close> (one common product out of two in the union) and the combined score is
  \<open>0.25\<close>, both of them \<^verbatim>\<open>float64\<close> values computed without rounding error:
  \<^verbatim>\<open>GetSimilarUsers\<close> returns the other user with score \<open>0.25\<close>, and \<^verbatim>\<open>GetRecommendations\<close>
  returns exactly \<open>P2\<close>, with score \<open>0.25 * 3.0 = 0.75\<close>, and not \<open>P1\<close>. This holds in whatever order the store lists the three purchases.
\<close>

theorem scenario_shared_purchase:
  fixes a b c :: UserProductPurchase
  assumes users: "target \<noteq> other" and products: "P1 \<noteq> P2"
    and a: "purchase_UserID a = target" "purchase_ProductID a = P1"
    and b: "purchase_UserID b = other" "purchase_ProductID b = P1"
    and c: "purchase_UserID c = other" "purchase_ProductID c = P2"
    and likes: "GetAllUserLikes w = Inr []" and views: "GetAllUserViews w = Inr []"
    and purchases: "GetAllUserPurchases w = Inr allPurchases"
    and events: "set allPurchases = {a, b, c}" "distinct allPurchases"
    and catalog: "GetByID w P1 = Inr product1" "GetByID w P2 = Inr product2"
    and limits: "0 < simLimit"
  shows "purchased_by allPurchases target = {P1} \<and> purchased_by allPurchases other = {P1, P2} \<and>
     jaccard {P1} {P1, P2} = 1/2 \<and> jaccard64 {P1} {P1, P2} = 1/2 \<and>
     GetSimilarUsers w target simLimit =
       Ok [\<lparr>sim_UserID = other, SimilarityScore = 1/4, CommonLikes = 0, CommonViews = 0\<rparr>] \<and>
     GetRecommendations w target limit =
       Ok \<lparr>UserID = target,
           Recommendations =
             [\<lparr>ProductID = P2, ProductName = product_Name product2, CategoryID = categoryID_of product2,
               Price = product_Price product2, Score = 3/4,
               Reason = ''Users with similar interests liked this''\<rparr>],
           Algorithm = ''collaborative_filtering'', GeneratedAt = now_RFC3339 w\<rparr>"
proof -
  let ?entry = "\<lparr>sim_UserID = other, SimilarityScore = 1/4, CommonLikes = 0, CommonViews = 0\<rparr>"
  have pt: "purchased_by allPurchases target = {P1}"
  proof -
    have "{ev \<in> set allPurchases. purchase_UserID ev = target} = {a}"
      using users a b c events(1) by auto
    then show ?thesis using a by (simp add: purchased_by_def products_of_def)
  qed
  have po: "purchased_by allPurchases other = {P1, P2}"
  proof -
    have "{ev \<in> set allPurchases. purchase_UserID ev = other} = {b, c}"
      using users a b c events(1) by auto
    then show ?thesis using b c by (simp add: purchased_by_def products_of_def)
  qed
  have pz: "purchased_by allPurchases x = {}" if "x \<noteq> target" "x \<noteq> other" for x
    using that a b c events(1) by (auto simp: purchased_by_def products_of_def)
  have lv: "liked_by [] x = {}" "viewed_by [] x = {}" for x
    by (simp_all add: liked_by_def viewed_by_def)
  have j: "jaccard {P1} {P1, P2} = 1/2"
  proof -
    have "{P1} \<union> {P1, P2} = {P1, P2}" "{P1} \<inter> {P1, P2} = {P1}" by auto
    then show ?thesis using products by (simp add: jaccard_def)
  qed
  have j64: "jaccard64 {P1} {P1, P2} = 1/2"
  proof -
    have "{P1} \<union> {P1, P2} = {P1, P2}" "{P1} \<inter> {P1, P2} = {P1}" by auto
    moreover have "fdiv (float64_of_int 1) (float64_of_int 2) = 1/2" by code_simp
    ultimately show ?thesis using products by (simp add: jaccard64_def)
  qed
  have e64: "jaccard64 {} {} = 0" by (simp add: jaccard64_def)
  have sum: "fadd (fadd (fmul (1/2) purchaseWeight) (fmul 0 likeWeight)) (fmul 0 viewWeight) = 1/4"
    by code_simp
  have wj: "weighted_jaccard64 [] [] allPurchases target other = 1/4"
    unfolding weighted_jaccard64_def pt po lv j64 e64 by (rule sum)
  have keep: "\<not> (1/4 < similarityThreshold)" by code_simp
  have boost: "fadd 0 (fmul (1/4) purchaseBoost) = 3/4" by code_simp
  have ou: "other_users [] [] allPurchases target = {other}"
    using users a b c events(1) by (auto simp: other_users_eq)
  have entry: "entry_for [] [] allPurchases target other = Some ?entry"
    using keep by (simp add: entry_for_eq wj pt po lv)
  obtain ids where ids: "set ids = other_users [] [] allPurchases target" "distinct ids"
    and eq: "\<And>l. similar_users (range_allUserIDs w) target l [] [] allPurchases =
       limit_results l (sort_key (\<lambda>s. - SimilarityScore s)
          (List.map_filter (entry_for [] [] allPurchases target) ids))"
    using similar_users_unfold [of "[]" "[]" allPurchases target "range_allUserIDs w"] by blast
  have "ids = [other]" using ids ou by (simp add: singleton_list)
  then have sim: "GetSimilarUsers w target l = Ok [?entry]" if "0 < l" for l
    using that eq [of l] entry likes views purchases
    by (simp add: GetSimilarUsers_reads limit_results_fits)
  let ?step = "\<lambda>purchase st.
             if purchase_UserID purchase \<noteq> sim_UserID ?entry then st
             else if purchase_ProductID purchase \<in> {P1} then st
             else credit w (purchase_ProductID purchase) (fmul (SimilarityScore ?entry) purchaseBoost) st"
  let ?init = "\<lparr>productScores = [], productDetails = Map.empty\<rparr>"
  have "fold ?step allPurchases ?init = ?step c ?init"
  proof (rule fold_single_effect [OF events(2)])
    show "c \<in> set allPurchases" using events(1) by simp
    fix x st assume "x \<in> set allPurchases" "x \<noteq> c"
    then have "x = a \<or> x = b" using events(1) by auto
    then show "?step x st = st" using a b users by auto
  qed
  then have agg: "aggregate w {} {P1} [?entry] allPurchases [] =
      \<lparr>productScores = [(P2, 3/4)], productDetails = [P2 \<mapsto> product2]\<rparr>"
    using c products catalog
    by (simp add: aggregate_def purchase_pass_def like_pass_def credit_def boost)
  have cand: "candidates w (aggregate w {} {P1} [?entry] allPurchases []) =
      [\<lparr>ProductID = P2, ProductName = product_Name product2, CategoryID = categoryID_of product2,
               Price = product_Price product2, Score = 3/4,
               Reason = ''Users with similar interests liked this''\<rparr>]"
    unfolding agg by (simp add: candidates_def range_map_def recommendation_of_def)
  have pos: "0 < clamp_limit limit" using clamp_limit_range by simp
  have ne: "(products_of like_UserID like_ProductID target [] = {} \<and>
        products_of view_UserID view_ProductID target [] = {} \<and>
        products_of purchase_UserID purchase_ProductID target allPurchases = {}) \<longleftrightarrow> False"
    using pt by (simp add: purchased_by_def)
  have "GetRecommendations w target limit =
      collaborative w target (clamp_limit limit) [] allPurchases {} {P1} [?entry]"
    using sim [of 10] pt
    by (simp add: GetRecommendations_def likes views purchases user_products_eq Let_def ne)
       (simp add: purchased_by_def)
  also have "\<dots> = Ok \<lparr>UserID = target,
           Recommendations =
             [\<lparr>ProductID = P2, ProductName = product_Name product2, CategoryID = categoryID_of product2,
               Price = product_Price product2, Score = 3/4,
               Reason = ''Users with similar interests liked this''\<rparr>],
           Algorithm = ''collaborative_filtering'', GeneratedAt = now_RFC3339 w\<rparr>"
    using pos unfolding collaborative_def Let_def candidates_def [symmetric] cand
    by (simp add: limit_results_fits)
  finally show ?thesis using pt po j j64 sim [OF limits] by simp
qed


theorem scenario_shared_purchase_witness:
  "purchased_by purchases_S 1 = {101} \<and> purchased_by purchases_S 2 = {101, 102} \<and>
   jaccard {101} {101, 102} = 1/2 \<and> jaccard64 {101} {101, 102} = 1/2 \<and>
   GetSimilarUsers world_S 1 10 =
     Ok [\<lparr>sim_UserID = 2, SimilarityScore = 1/4, CommonLikes = 0, CommonViews = 0\<rparr>] \<and>
   GetRecommendations world_S 1 10 =
     Ok \<lparr>UserID = 1,
         Recommendations =
           [\<lparr>ProductID = 102, ProductName = ''item'', CategoryID = 0, Price = 10, Score = 3/4,
             Reason = ''Users with similar interests liked this''\<rparr>],
         Algorithm = ''collaborative_filtering'', GeneratedAt = ''2025-11-07T00:00:00Z''\<rparr>"
proof -
  have reads: "GetAllUserLikes world_S = Inr []" "GetAllUserViews world_S = Inr []"
    "GetAllUserPurchases world_S = Inr purchases_S"
    by (simp_all add: world_S_def store_reads)
  have events: "set purchases_S = {purchase_event 1 101, purchase_event 2 101, purchase_event 2 102}"
    "distinct purchases_S"
    by (simp_all add: purchases_S_def purchase_event_def)
  have catalog: "GetByID world_S 101 = Inr (catalog_product 101)" "GetByID world_S 102 = Inr (catalog_product 102)"
    by (simp_all add: world_S_def store_def)
  have fields: "purchase_UserID (purchase_event u p) = u" "purchase_ProductID (purchase_event u p) = p" for u p
    by (simp_all add: purchase_event_def)
  have "(1::int) \<noteq> 2" "(101::int) \<noteq> 102" "(0::int) < 10" by simp_all
  from scenario_shared_purchase [OF this(1,2) fields fields fields reads events catalog this(3), of 10]
  show ?thesis
    by (simp add: catalog_product_def categoryID_of_def world_S_def store_def)
qed


text \<open>
  Claim C2 as stated fails: it expects purchase similarity \<open>1/1\<close>, combined score \<open>0.5\<close> and
  a recommendation score \<open>1.5\<close>; on the scenario (user \<open>1\<close> bought \<open>101\<close>, user \<open>2\<close> bought
  \<open>101\<close> and \<open>102\<close>) the code gives a combined score \<open>0.25\<close> and a recommendation score
  \<open>0.75\<close>.
\<close>

theorem scenario_scores_counterexample:
  "GetSimilarUsers world_S 1 10 =
     Ok [\<lparr>sim_UserID = 2, SimilarityScore = 1/4, CommonLikes = 0, CommonViews = 0\<rparr>] \<and>
   (1/4 :: rat) \<noteq> 1/2 \<and>
   GetRecommendations world_S 1 10 =
     Ok \<lparr>UserID = 1,
         Recommendations =
           [\<lparr>ProductID = 102, ProductName = ''item'', CategoryID = 0, Price = 10, Score = 3/4,
             Reason = ''Users with similar interests liked this''\<rparr>],
         Algorithm = ''collaborative_filtering'', GeneratedAt = ''2025-11-07T00:00:00Z''\<rparr> \<and>
   (3/4 :: rat) \<noteq> 3/2"
  by code_simp


end
